theory Spec2Isabelle
  imports Main "HOL-Library.Sublist"
begin

unbundle bit_operations_syntax

section \<open>fuse\_pxebootfs: a shallow embedding\<close>

text \<open>
  The program is one Python 2 module, \<^verbatim>\<open>fuse_pxebootfs.py\<close>. Its strings are byte
  strings, modelled as \<^typ>\<open>string\<close>; its integers are unbounded, modelled as
  \<^typ>\<open>int\<close>. An exception is a value: every function that can raise returns a sum
  whose left injection is the exception.
\<close>

subsection \<open>Exceptions\<close>

text \<open>
  \<^verbatim>\<open>OSError(errno, strerror, filename)\<close> as the \<^verbatim>\<open>os\<close> module raises it. The
  message of a \<^verbatim>\<open>ValueError\<close> is never read by the program and is left out.
\<close>

record os_error =
  errno :: int
  strerror :: string
  filename :: string

datatype exn = OSError os_error | ValueError | PXEBootError string

subsection \<open>Python string primitives\<close>

definition newline :: char where
  "newline = CHR 0x0A"

definition isspace :: "char \<Rightarrow> bool" where
  \<comment> \<open>C's \<^verbatim>\<open>isspace\<close> in the C locale: space, \<^verbatim>\<open>\t \n \v \f \r\<close>.\<close>
  "isspace c = (let n = of_char c :: nat in n = 32 \<or> (9 \<le> n \<and> n \<le> 13))"

definition digit_value :: "char \<Rightarrow> nat" where
  \<comment> \<open>CPython's digit table: \<^verbatim>\<open>0-9\<close>, then letters of either case from 10; 37 otherwise.\<close>
  "digit_value c = (let n = of_char c :: nat in
      if 48 \<le> n \<and> n \<le> 57 then n - 48
      else if 97 \<le> n \<and> n \<le> 122 then n - 87
      else if 65 \<le> n \<and> n \<le> 90 then n - 55
      else 37)"

definition digits_value :: "nat \<Rightarrow> string \<Rightarrow> nat" where
  "digits_value base ds = foldl (\<lambda>a c. a * base + digit_value c) 0 ds"

definition skip_0x :: "string \<Rightarrow> string" where
  \<comment> \<open>Base 16 accepts a \<^verbatim>\<open>0x\<close> or \<^verbatim>\<open>0X\<close> prefix when a hexadecimal digit follows it.\<close>
  "skip_0x s = (case s of
      z # x # d # r \<Rightarrow>
        if z = CHR ''0'' \<and> (x = CHR ''x'' \<or> x = CHR ''X'') \<and> digit_value d < 16
        then d # r else s
    | _ \<Rightarrow> s)"

definition py_int :: "nat \<Rightarrow> string \<Rightarrow> exn + int" where
  \<comment> \<open>\<^verbatim>\<open>int(s, base)\<close> of Python 2 on a byte string, for base 10 and 16: white space,
     an optional sign, white space again, the prefix of base 16, one digit or more,
     white space, and nothing else; \<^verbatim>\<open>ValueError\<close> otherwise.\<close>
  "py_int base s =
     (let s1 = dropWhile isspace s;
          neg = (s1 \<noteq> [] \<and> hd s1 = CHR ''-'');
          s2 = (if s1 \<noteq> [] \<and> (hd s1 = CHR ''-'' \<or> hd s1 = CHR ''+'') then tl s1 else s1);
          s3 = dropWhile isspace s2;
          s4 = (if base = 16 then skip_0x s3 else s3);
          ds = takeWhile (\<lambda>c. digit_value c < base) s4;
          rest = dropWhile isspace (dropWhile (\<lambda>c. digit_value c < base) s4)
      in if ds = [] \<or> rest \<noteq> [] then Inl ValueError
         else Inr (if neg then - int (digits_value base ds) else int (digits_value base ds)))"

definition digit_char :: "nat \<Rightarrow> char" where
  "digit_char d = ''0123456789ABCDEF'' ! d"

fun dec_digits :: "nat \<Rightarrow> string" where
  "dec_digits n =
     (if n < 10 then [digit_char n] else dec_digits (n div 10) @ [digit_char (n mod 10)])"

fun hex_digits :: "nat \<Rightarrow> string" where
  "hex_digits n =
     (if n < 16 then [digit_char n] else hex_digits (n div 16) @ [digit_char (n mod 16)])"

declare dec_digits.simps [simp del] hex_digits.simps [simp del]

definition py_str :: "int \<Rightarrow> string" where
  \<comment> \<open>\<^verbatim>\<open>str(n)\<close> of an integer.\<close>
  "py_str n = (if n < 0 then CHR ''-'' # dec_digits (nat (- n)) else dec_digits (nat n))"

definition fmt_02X :: "int \<Rightarrow> string" where
  \<comment> \<open>\<^verbatim>\<open>"%02X" % n\<close>: upper-case hexadecimal, padded with zeros to two characters,
     the sign counted in the width.\<close>
  "fmt_02X n =
     (if n < 0 then CHR ''-'' # hex_digits (nat (- n))
      else if n < 16 then CHR ''0'' # hex_digits (nat n)
      else hex_digits (nat n))"

fun split_on :: "char \<Rightarrow> string \<Rightarrow> string list" where
  \<comment> \<open>\<^verbatim>\<open>s.split(c)\<close> with a one-character separator: never an empty list.\<close>
  "split_on c [] = [[]]"
| "split_on c (x # xs) =
     (if x = c then [] # split_on c xs
      else (case split_on c xs of p # ps \<Rightarrow> (x # p) # ps | [] \<Rightarrow> [[x]]))"

fun join_with :: "string \<Rightarrow> string list \<Rightarrow> string" where
  \<comment> \<open>\<^verbatim>\<open>sep.join(parts)\<close>.\<close>
  "join_with sep [] = []"
| "join_with sep [p] = p"
| "join_with sep (p # q # ps) = p @ sep @ join_with sep (q # ps)"

definition py_slice :: "'a list \<Rightarrow> int \<Rightarrow> int \<Rightarrow> 'a list" where
  \<comment> \<open>\<^verbatim>\<open>s[i:j]\<close>: a negative index counts from the end, both are clamped to the string.\<close>
  "py_slice s i j =
     (let n = int (length s);
          a = (if i < 0 then max 0 (i + n) else min i n);
          b = (if j < 0 then max 0 (j + n) else min j n)
      in if a < b then take (nat (b - a)) (drop (nat a) s) else [])"

fun map_exn :: "('a \<Rightarrow> exn + 'b) \<Rightarrow> 'a list \<Rightarrow> exn + 'b list" where
  \<comment> \<open>Python 2's eager \<^verbatim>\<open>map\<close> with a function that can raise: the first exception wins.\<close>
  "map_exn f [] = Inr []"
| "map_exn f (x # xs) =
     (case f x of
        Inl e \<Rightarrow> Inl e
      | Inr y \<Rightarrow> (case map_exn f xs of Inl e \<Rightarrow> Inl e | Inr ys \<Rightarrow> Inr (y # ys)))"

subsection \<open>The identifier codec\<close>

definition hex2ip :: "string \<Rightarrow> exn + string" where
  "hex2ip ip_hex =
     (case map_exn (py_int 16)
             [py_slice ip_hex 0 2, py_slice ip_hex 2 4, py_slice ip_hex 4 6, py_slice ip_hex 6 8] of
        Inl e \<Rightarrow> Inl e
      | Inr ns \<Rightarrow> Inr (join_with ''.'' (map py_str ns)))"

definition ip2hex :: "string \<Rightarrow> exn + string" where
  "ip2hex ip_addr =
     (case map_exn (py_int 10) (split_on (CHR ''.'') ip_addr) of
        Inl e \<Rightarrow> Inl e
      | Inr ns \<Rightarrow> Inr (concat (map fmt_02X ns)))"

definition dec_char :: "char \<Rightarrow> bool" where
  "dec_char c = (c \<in> set ''0123456789'')"

definition upper_hex :: "char \<Rightarrow> bool" where
  "upper_hex c = (c \<in> set ''0123456789ABCDEF'')"

definition valid_octet :: "string \<Rightarrow> bool" where
  \<comment> \<open>A decimal octet as \<^verbatim>\<open>str\<close> writes it: digits only, no leading zero, at most 255.\<close>
  "valid_octet s =
     (s \<noteq> [] \<and> list_all dec_char s \<and> (length s = 1 \<or> hd s \<noteq> CHR ''0'') \<and>
      digits_value 10 s \<le> 255)"

definition valid_dotted_quad :: "string \<Rightarrow> bool" where
  "valid_dotted_quad a =
     (length (split_on (CHR ''.'') a) = 4 \<and> list_all valid_octet (split_on (CHR ''.'') a))"

definition hex_token :: "string \<Rightarrow> bool" where
  \<comment> \<open>Eight upper-case hexadecimal digits.\<close>
  "hex_token s = (length s = 8 \<and> list_all upper_hex s)"

subsection \<open>Paths and the identifier shape\<close>

definition slash :: char where
  "slash = CHR ''/''"

definition basename :: "string \<Rightarrow> string" where
  \<comment> \<open>\<^verbatim>\<open>posixpath.basename\<close>: what follows the last slash.\<close>
  "basename p = rev (takeWhile (\<lambda>c. c \<noteq> slash) (rev p))"

definition dirname :: "string \<Rightarrow> string" where
  \<comment> \<open>\<^verbatim>\<open>posixpath.dirname\<close>: up to the last slash, trailing slashes stripped
     unless there is nothing else.\<close>
  "dirname p =
     (let head = rev (dropWhile (\<lambda>c. c \<noteq> slash) (rev p))
      in if head \<noteq> [] \<and> \<not> list_all (\<lambda>c. c = slash) head
         then rev (dropWhile (\<lambda>c. c = slash) (rev head)) else head)"

definition join :: "string \<Rightarrow> string \<Rightarrow> string" where
  \<comment> \<open>\<^verbatim>\<open>posixpath.join\<close> of two components.\<close>
  "join a b =
     (if b \<noteq> [] \<and> hd b = slash then b
      else if a = [] \<or> last a = slash then a @ b
      else a @ [slash] @ b)"

definition node_char :: "char \<Rightarrow> bool" where
  \<comment> \<open>The character class \<^verbatim>\<open>[A-Z0-9]\<close>.\<close>
  "node_char c = (let n = of_char c :: nat in (65 \<le> n \<and> n \<le> 90) \<or> (48 \<le> n \<and> n \<le> 57))"

definition node_re_match :: "string \<Rightarrow> bool" where
  \<comment> \<open>\<^verbatim>\<open>re.compile(r'^([A-Z0-9]{8})$').match(s)\<close>, as a truth value. In Python
     \<^verbatim>\<open>$\<close> also matches just before a newline that ends the string.\<close>
  "node_re_match s =
     (length (take 8 s) = 8 \<and> list_all node_char (take 8 s) \<and>
      (drop 8 s = [] \<or> drop 8 s = [newline]))"

subsection \<open>The template\<close>

definition marker :: string where
  "marker = ''<NODE>''"

fun find_from :: "string \<Rightarrow> string \<Rightarrow> nat \<Rightarrow> int" where
  "find_from sub [] i = (if sub = [] then int i else - 1)"
| "find_from sub (c # cs) i =
     (if prefix sub (c # cs) then int i else find_from sub cs (Suc i))"

definition str_find :: "string \<Rightarrow> string \<Rightarrow> int" where
  \<comment> \<open>\<^verbatim>\<open>s.find(sub)\<close>: the lowest index of an occurrence, or -1.\<close>
  "str_find s sub = find_from sub s 0"

fun replace_from :: "string \<Rightarrow> string \<Rightarrow> string \<Rightarrow> string" where
  "replace_from old new [] = []"
| "replace_from old new (c # cs) =
     (if prefix old (c # cs) then new @ replace_from old new (drop (length old - 1) cs)
      else c # replace_from old new cs)"

definition str_replace :: "string \<Rightarrow> string \<Rightarrow> string \<Rightarrow> string" where
  \<comment> \<open>\<^verbatim>\<open>s.replace(old, new)\<close>: every occurrence, left to right, without overlap;
     an empty \<^verbatim>\<open>old\<close> matches before every character and at the end.\<close>
  "str_replace s old new =
     (if old = [] then new @ concat (map (\<lambda>c. c # new) s) else replace_from old new s)"

fun occurrences :: "string \<Rightarrow> string \<Rightarrow> nat" where
  \<comment> \<open>The number of positions of \<open>s\<close> at which \<open>sub\<close> occurs.\<close>
  "occurrences sub [] = 0"
| "occurrences sub (c # cs) = (if prefix sub (c # cs) then 1 else 0) + occurrences sub cs"

subsection \<open>The file-system object\<close>

text \<open>
  The fields of \<^verbatim>\<open>PXEBootFS\<close> that the handlers read. \<^verbatim>\<open>_next_fsid\<close> is
  \<open>next_fsid\<close>; \<^verbatim>\<open>root_time\<close> is kept as the integer that \<^verbatim>\<open>Stat\<close> makes of it.
\<close>

record pxebootfs =
  conf_pxe_template :: string
  conf_node_dir :: string
  conf_root_dir :: string
  conf_overlay_dir :: string
  pxe_template :: string
  pxe_template_length :: int
  next_fsid :: int
  root_time :: int

definition load_template :: "pxebootfs \<Rightarrow> string \<Rightarrow> exn + pxebootfs" where
  \<comment> \<open>\<open>contents\<close> is what \<^verbatim>\<open>file(path,'r').read(os.stat(path).st_size)\<close> returned.\<close>
  "load_template self contents =
     (if str_find contents marker = - 1
      then Inl (PXEBootError ''Could not find <NODE> in PXE config template'')
      else Inr (self\<lparr>pxe_template := contents,
                      pxe_template_length := int (length contents) - int (length marker) + 8\<rparr>))"

definition get_pxe_data :: "pxebootfs \<Rightarrow> string \<Rightarrow> string" where
  "get_pxe_data self node = str_replace (pxe_template self) marker node"

definition get_next_fsid :: "pxebootfs \<Rightarrow> int \<times> pxebootfs" where
  "get_next_fsid self = (next_fsid self, self\<lparr>next_fsid := next_fsid self + 1\<rparr>)"

subsection \<open>The host: directories, mounts and the shell\<close>

text \<open>
  The program reaches the host through \<^verbatim>\<open>os.path.exists\<close>, \<^verbatim>\<open>isdir\<close>,
  \<^verbatim>\<open>ismount\<close>, \<^verbatim>\<open>os.listdir\<close>, \<^verbatim>\<open>os.mkdir\<close>, \<^verbatim>\<open>os.rmdir\<close> and
  \<^verbatim>\<open>os.system\<close>. The host is a table of the paths that exist (in the order a listing
  reports them), the active mount points, the directories in which this process may not
  create or remove an entry, and what the host does with a command line: its exit status
  and the directories it makes mount points. A path is the string the program built for it;
  links and path normalisation are outside the model.
\<close>

datatype fkind = RegularFile | Directory

record os_state =
  fs :: "(string \<times> fkind) list"
  mounts :: "string list"
  denied :: "string list"
  sh :: "string \<Rightarrow> int \<times> string list"
  shell_log :: "string list"
  uid :: int
  gid :: int

definition os_err :: "int \<Rightarrow> string \<Rightarrow> string \<Rightarrow> os_error" where
  "os_err n msg p = \<lparr>errno = n, strerror = msg, filename = p\<rparr>"

definition ENOENT :: int where "ENOENT = 2"
definition EACCES :: int where "EACCES = 13"
definition EBUSY :: int where "EBUSY = 16"
definition EEXIST :: int where "EEXIST = 17"
definition ENOTDIR :: int where "ENOTDIR = 20"
definition ENOTEMPTY :: int where "ENOTEMPTY = 39"

definition repr_char :: "char \<Rightarrow> char \<Rightarrow> string" where
  "repr_char q c =
     (let n = of_char c :: nat in
      if c = q \<or> c = CHR 0x5C then [CHR 0x5C, c]
      else if n = 9 then [CHR 0x5C, CHR ''t'']
      else if n = 10 then [CHR 0x5C, CHR ''n'']
      else if n = 13 then [CHR 0x5C, CHR ''r'']
      else if n < 32 \<or> 127 \<le> n
        then [CHR 0x5C, CHR ''x'', ''0123456789abcdef'' ! (n div 16), ''0123456789abcdef'' ! (n mod 16)]
      else [c])"

definition py_repr :: "string \<Rightarrow> string" where
  \<comment> \<open>\<^verbatim>\<open>repr(s)\<close> of a byte string: single quotes, unless it holds one and no double quote.\<close>
  "py_repr s =
     (let q = (if CHR 0x27 \<in> set s \<and> CHR 0x22 \<notin> set s then CHR 0x22 else CHR 0x27)
      in q # concat (map (repr_char q) s) @ [q])"

definition str_oserror :: "os_error \<Rightarrow> string" where
  \<comment> \<open>\<^verbatim>\<open>str(err)\<close> of an \<^verbatim>\<open>OSError\<close> with a file name.\<close>
  "str_oserror e =
     ''[Errno '' @ py_str (errno e) @ ''] '' @ strerror e @ '': '' @ py_repr (filename e)"

definition path_exists :: "os_state \<Rightarrow> string \<Rightarrow> bool" where
  "path_exists os p = (p \<in> set (map fst (fs os)))"

definition isdir :: "os_state \<Rightarrow> string \<Rightarrow> bool" where
  "isdir os p = ((p, Directory) \<in> set (fs os))"

definition ismount :: "os_state \<Rightarrow> string \<Rightarrow> bool" where
  "ismount os p = (isdir os p \<and> p \<in> set (mounts os))"

definition child_name :: "string \<Rightarrow> string \<Rightarrow> string option" where
  \<comment> \<open>The name \<open>n\<close> under which the path \<open>q\<close> is an entry of the directory \<open>d\<close>.\<close>
  "child_name d q =
     (let pre = (if d = [] \<or> last d = slash then d else d @ [slash]);
          n = drop (length pre) q
      in if prefix pre q \<and> n \<noteq> [] \<and> slash \<notin> set n then Some n else None)"

definition entries :: "os_state \<Rightarrow> string \<Rightarrow> string list" where
  "entries os d = List.map_filter (\<lambda>qk. child_name d (fst qk)) (fs os)"

definition listdir :: "os_state \<Rightarrow> string \<Rightarrow> os_error + string list" where
  "listdir os d =
     (if isdir os d then Inr (entries os d)
      else if path_exists os d then Inl (os_err ENOTDIR ''Not a directory'' d)
      else Inl (os_err ENOENT ''No such file or directory'' d))"

definition mkdir :: "string \<Rightarrow> os_state \<Rightarrow> os_error + os_state" where
  "mkdir p os =
     (if path_exists os p then Inl (os_err EEXIST ''File exists'' p)
      else if \<not> path_exists os (dirname p) then Inl (os_err ENOENT ''No such file or directory'' p)
      else if \<not> isdir os (dirname p) then Inl (os_err ENOTDIR ''Not a directory'' p)
      else if dirname p \<in> set (denied os) then Inl (os_err EACCES ''Permission denied'' p)
      else Inr (os\<lparr>fs := fs os @ [(p, Directory)]\<rparr>))"

definition rmdir :: "string \<Rightarrow> os_state \<Rightarrow> os_error + os_state" where
  "rmdir p os =
     (if \<not> path_exists os p then Inl (os_err ENOENT ''No such file or directory'' p)
      else if \<not> isdir os p then Inl (os_err ENOTDIR ''Not a directory'' p)
      else if dirname p \<in> set (denied os) then Inl (os_err EACCES ''Permission denied'' p)
      else if p \<in> set (mounts os) then Inl (os_err EBUSY ''Device or resource busy'' p)
      else if entries os p \<noteq> [] then Inl (os_err ENOTEMPTY ''Directory not empty'' p)
      else Inr (os\<lparr>fs := filter (\<lambda>qk. fst qk \<noteq> p) (fs os)\<rparr>))"

definition system :: "string \<Rightarrow> os_state \<Rightarrow> int \<times> os_state" where
  \<comment> \<open>\<^verbatim>\<open>os.system(cmd)\<close>: the command runs, its exit status is the result. A mount
     point is an existing directory.\<close>
  "system cmd os =
     (fst (sh os cmd),
      os\<lparr>mounts := mounts os @ filter (isdir os) (snd (sh os cmd)),
         shell_log := shell_log os @ [cmd]\<rparr>)"

definition wf_os :: "os_state \<Rightarrow> bool" where
  \<comment> \<open>Every active mount point is a directory.\<close>
  "wf_os os = list_all (isdir os) (mounts os)"

definition creatable :: "os_state \<Rightarrow> string \<Rightarrow> bool" where
  \<comment> \<open>The path exists, or \<^verbatim>\<open>os.mkdir\<close> can make it: its parent is a directory in which
     this process may create entries.\<close>
  "creatable os p =
     (path_exists os p \<or> (isdir os (dirname p) \<and> dirname p \<notin> set (denied os)))"

definition made :: "os_state \<Rightarrow> string \<Rightarrow> (string \<times> fkind) list" where
  \<comment> \<open>The entry that \<^verbatim>\<open>if not os.path.exists(p): os.mkdir(p)\<close> adds.\<close>
  "made os p = (if path_exists os p then [] else [(p, Directory)])"

subsection \<open>The node lifecycle\<close>

abbreviation node_path_of :: "pxebootfs \<Rightarrow> string \<Rightarrow> string" where
  "node_path_of self node \<equiv> join (conf_node_dir self) node"

abbreviation overlay_path_of :: "pxebootfs \<Rightarrow> string \<Rightarrow> string" where
  "overlay_path_of self node \<equiv> join (conf_overlay_dir self) node"

fun node_loop :: "string \<Rightarrow> string list \<Rightarrow> string list \<Rightarrow> os_state \<Rightarrow> (exn + string list) \<times> os_state" where
  \<comment> \<open>The \<^verbatim>\<open>for\<close> loop of \<^verbatim>\<open>get_node_list\<close> over the listing, \<open>nodes\<close> the list so far.\<close>
  "node_loop d [] nodes os = (Inr nodes, os)"
| "node_loop d (node # rest) nodes os =
     (let ndir = join d node in
      if ismount os ndir then node_loop d rest (nodes @ [basename ndir]) os
      else if isdir os ndir then
        (case rmdir ndir os of
           Inl e \<Rightarrow> (Inl (OSError e), os)
         | Inr os' \<Rightarrow> node_loop d rest nodes os')
      else node_loop d rest nodes os)"

definition get_node_list :: "pxebootfs \<Rightarrow> os_state \<Rightarrow> (exn + string list) \<times> os_state" where
  "get_node_list self os =
     (case listdir os (conf_node_dir self) of
        Inl e \<Rightarrow> (Inl (OSError e), os)
      | Inr names \<Rightarrow> node_loop (conf_node_dir self) names [] os)"

definition orphan :: "os_state \<Rightarrow> string \<Rightarrow> bool" where
  \<comment> \<open>A directory that is not an active mount point.\<close>
  "orphan os p = (isdir os p \<and> \<not> ismount os p)"

definition removable :: "os_state \<Rightarrow> string \<Rightarrow> bool" where
  \<comment> \<open>What \<^verbatim>\<open>os.rmdir\<close> asks of a directory: it is empty and may be removed from its parent.\<close>
  "removable os p = (entries os p = [] \<and> dirname p \<notin> set (denied os))"

definition without :: "os_state \<Rightarrow> string \<Rightarrow> os_state" where
  \<comment> \<open>The host once \<^verbatim>\<open>os.rmdir(p)\<close> has succeeded.\<close>
  "without os p = os\<lparr>fs := filter (\<lambda>qk. fst qk \<noteq> p) (fs os)\<rparr>"

definition mount_cmd :: "string \<Rightarrow> string \<Rightarrow> string \<Rightarrow> string" where
  "mount_cmd rw ro mnt = ''mount -t aufs -o br:'' @ rw @ ''=rw:'' @ ro @ ''=ro none '' @ mnt"

definition export_cmd :: "string \<Rightarrow> string \<Rightarrow> string \<Rightarrow> string" where
  "export_cmd mnt fsid ip =
     ''exportfs -o rw,no_root_squash,fsid='' @ fsid @ '' '' @ ip @ '':'' @ mnt"

definition ensure_dir :: "string \<Rightarrow> os_state \<Rightarrow> os_error + os_state" where
  \<comment> \<open>\<^verbatim>\<open>if not os.path.exists(p): os.mkdir(p)\<close>.\<close>
  "ensure_dir p os = (if \<not> path_exists os p then mkdir p os else Inr os)"

definition setup_node :: "pxebootfs \<Rightarrow> os_state \<Rightarrow> string \<Rightarrow> (exn + string) \<times> pxebootfs \<times> os_state" where
  \<comment> \<open>The arguments of the export command are evaluated in the order written:
     the fsid is taken before \<^verbatim>\<open>hex2ip\<close> runs.\<close>
  "setup_node self os node =
     (let node_path = join (conf_node_dir self) node in
      case ensure_dir node_path os of
        Inl e \<Rightarrow> (Inl (OSError e), self, os)
      | Inr os1 \<Rightarrow>
          (let overlay_path = join (conf_overlay_dir self) node in
           case ensure_dir overlay_path os1 of
             Inl e \<Rightarrow> (Inl (OSError e), self, os1)
           | Inr os2 \<Rightarrow>
               (let root_path = conf_root_dir self;
                    os3 = (if \<not> ismount os2 node_path
                           then snd (system (mount_cmd overlay_path root_path node_path) os2)
                           else os2);
                    fsid = fst (get_next_fsid self);
                    self' = snd (get_next_fsid self)
                in case hex2ip node of
                     Inl e \<Rightarrow> (Inl e, self', os3)
                   | Inr ip \<Rightarrow>
                       (Inr node, self',
                        snd (system (export_cmd node_path (py_str fsid) ip) os3)))))"

definition after_dirs :: "pxebootfs \<Rightarrow> os_state \<Rightarrow> string \<Rightarrow> os_state" where
  \<comment> \<open>The host once both directories of a node are in place.\<close>
  "after_dirs self os node =
     os\<lparr>fs := fs os @ made os (node_path_of self node) @
            made (os\<lparr>fs := fs os @ made os (node_path_of self node)\<rparr>) (overlay_path_of self node)\<rparr>"

definition after_mount :: "pxebootfs \<Rightarrow> os_state \<Rightarrow> string \<Rightarrow> os_state" where
  \<comment> \<open>The host once the mount command, if one was due, has run.\<close>
  "after_mount self os node =
     (if \<not> ismount (after_dirs self os node) (node_path_of self node)
      then snd (system (mount_cmd (overlay_path_of self node) (conf_root_dir self)
                          (node_path_of self node)) (after_dirs self os node))
      else after_dirs self os node)"

subsection \<open>The handlers\<close>

record stat =
  st_atime :: int
  st_ctime :: int
  st_mtime :: int
  st_dev :: int
  st_gid :: int
  st_ino :: int
  st_mode :: int
  st_size :: int
  st_uid :: int
  st_nlink :: int

definition Stat :: "os_state \<Rightarrow> int \<Rightarrow> stat" where
  "Stat os timestamp =
     \<lparr>st_atime = timestamp, st_ctime = timestamp, st_mtime = timestamp, st_dev = 0,
      st_gid = gid os, st_ino = 0, st_mode = 0, st_size = 0, st_uid = uid os, st_nlink = 0\<rparr>"

definition S_IFMT :: int where "S_IFMT = 61440"
definition S_IFDIR :: int where "S_IFDIR = 16384"
definition S_IFREG :: int where "S_IFREG = 32768"
definition S_IFLNK :: int where "S_IFLNK = 40960"

definition S_ISDIR :: "int \<Rightarrow> bool" where "S_ISDIR m = ((m AND S_IFMT) = S_IFDIR)"
definition S_ISREG :: "int \<Rightarrow> bool" where "S_ISREG m = ((m AND S_IFMT) = S_IFREG)"
definition S_ISLNK :: "int \<Rightarrow> bool" where "S_ISLNK m = ((m AND S_IFMT) = S_IFLNK)"

definition getattr :: "pxebootfs \<Rightarrow> os_state \<Rightarrow> string \<Rightarrow> int + stat" where
  \<comment> \<open>The result is \<^verbatim>\<open>-errno.ENOENT\<close> or the \<^verbatim>\<open>Stat\<close>; 493 is \<^verbatim>\<open>0755\<close>, 438 is \<^verbatim>\<open>0666\<close>.\<close>
  "getattr self os path =
     (let status = Stat os (root_time self) in
      if path = ''/'' \<or> path = ''/by-ip''
        then Inr (status\<lparr>st_mode := S_IFDIR OR 493, st_size := 4096, st_nlink := 2\<rparr>)
      else if prefix ''/by-ip/'' path \<and> length path > length ''/by-ip''
        then Inr (status\<lparr>st_mode := S_IFLNK OR 493, st_size := 4096, st_nlink := 2\<rparr>)
      else if node_re_match (basename path)
        then Inr (status\<lparr>st_mode := S_IFREG OR 438, st_size := pxe_template_length self,
                         st_nlink := 1\<rparr>)
      else Inl (- ENOENT))"

definition read :: "pxebootfs \<Rightarrow> os_state \<Rightarrow> string \<Rightarrow> int \<Rightarrow> int \<Rightarrow> (exn + string) \<times> pxebootfs \<times> os_state" where
  \<comment> \<open>Only \<^verbatim>\<open>OSError\<close> is caught; its text is returned as the data read.\<close>
  "read self os path len offset =
     (let node = basename path in
      if node_re_match node then
        (case setup_node self os node of
           (Inl e, self', os') \<Rightarrow>
             (case e of
                OSError err \<Rightarrow> (Inr (str_oserror err), self', os')
              | _ \<Rightarrow> (Inl e, self', os'))
         | (Inr _, self', os') \<Rightarrow>
             (Inr (py_slice (get_pxe_data self' node) offset (offset + len)), self', os'))
      else (Inr [], self, os))"

subsection \<open>Interleaved calls of the fsid allocator\<close>

text \<open>
  \<^verbatim>\<open>get_next_fsid\<close> is three statements: it reads the counter into a local, adds one
  to the counter, and returns the local. A call in progress is at one of them; a schedule
  names, step by step, the call that runs its next statement.
\<close>

datatype call = Called | Loaded int | Stored int | Returned int

definition call_step :: "call \<Rightarrow> pxebootfs \<Rightarrow> call \<times> pxebootfs" where
  "call_step c self =
     (case c of
        Called \<Rightarrow> (Loaded (next_fsid self), self)
      | Loaded fsid \<Rightarrow> (Stored fsid, self\<lparr>next_fsid := next_fsid self + 1\<rparr>)
      | Stored fsid \<Rightarrow> (Returned fsid, self)
      | Returned fsid \<Rightarrow> (Returned fsid, self))"

fun run_calls :: "nat list \<Rightarrow> call list \<Rightarrow> pxebootfs \<Rightarrow> call list \<times> pxebootfs" where
  "run_calls [] cs self = (cs, self)"
| "run_calls (i # sched) cs self =
     (if i < length cs
      then run_calls sched (cs[i := fst (call_step (cs ! i) self)]) (snd (call_step (cs ! i) self))
      else run_calls sched cs self)"

fun fsid_calls :: "nat \<Rightarrow> pxebootfs \<Rightarrow> int list \<times> pxebootfs" where
  \<comment> \<open>\<open>n\<close> calls of \<^verbatim>\<open>get_next_fsid\<close>, one after the other, and what they returned.\<close>
  "fsid_calls 0 self = ([], self)"
| "fsid_calls (Suc n) self =
     (let r = get_next_fsid self; rs = fsid_calls n (snd r) in (fst r # fst rs, snd rs))"

subsection \<open>A sample configuration and sample hosts\<close>

definition working_sh :: "string \<Rightarrow> int \<times> string list" where
  \<comment> \<open>A host on which every command exits with 0 and \<^verbatim>\<open>mount\<close> makes its last word
     a mount point.\<close>
  "working_sh cmd =
     (if prefix ''mount '' cmd then (0, [rev (takeWhile (\<lambda>c. c \<noteq> CHR '' '') (rev cmd))])
      else (0, []))"

definition failing_sh :: "string \<Rightarrow> int \<times> string list" where
  \<comment> \<open>A host on which every command fails: exit code 1, nothing mounted.\<close>
  "failing_sh cmd = (256, [])"

definition sample_fs :: pxebootfs where
  "sample_fs =
     \<lparr>conf_pxe_template = ''/etc/pxebootfs/template'', conf_node_dir = ''/srv/nodes'',
      conf_root_dir = ''/srv/root'', conf_overlay_dir = ''/srv/overlay'',
      pxe_template = ''append nfsroot=/srv/nodes/<NODE> ro'', pxe_template_length = 37,
      next_fsid = 100000, root_time = 0\<rparr>"

definition sample_os :: os_state where
  "sample_os =
     \<lparr>fs = [(''/srv'', Directory), (''/srv/nodes'', Directory), (''/srv/root'', Directory),
            (''/srv/overlay'', Directory)],
      mounts = [], denied = [], sh = working_sh, shell_log = [], uid = 0, gid = 0\<rparr>"

definition provisioned_os :: os_state where
  \<comment> \<open>The sample host once the node \<^verbatim>\<open>0A0B0C0D\<close> has been provisioned.\<close>
  "provisioned_os =
     \<lparr>fs = [(''/srv'', Directory), (''/srv/nodes'', Directory), (''/srv/root'', Directory),
            (''/srv/overlay'', Directory), (''/srv/nodes/0A0B0C0D'', Directory),
            (''/srv/overlay/0A0B0C0D'', Directory)],
      mounts = [''/srv/nodes/0A0B0C0D''], denied = [], sh = working_sh,
      shell_log =
        [''mount -t aufs -o br:/srv/overlay/0A0B0C0D=rw:/srv/root=ro none /srv/nodes/0A0B0C0D'',
         ''exportfs -o rw,no_root_squash,fsid=100000 10.11.12.13:/srv/nodes/0A0B0C0D''],
      uid = 0, gid = 0\<rparr>"

definition orphan_host :: os_state where
  \<comment> \<open>The sample host with a leftover node directory that is not empty.\<close>
  "orphan_host =
     \<lparr>fs = [(''/srv'', Directory), (''/srv/nodes'', Directory), (''/srv/root'', Directory),
            (''/srv/overlay'', Directory), (''/srv/nodes/AABBCCDD'', Directory),
            (''/srv/nodes/AABBCCDD/etc'', Directory)],
      mounts = [], denied = [], sh = working_sh, shell_log = [], uid = 0, gid = 0\<rparr>"

definition node_host :: os_state where
  \<comment> \<open>The sample host with a mounted node, an empty leftover node directory and a file.\<close>
  "node_host =
     \<lparr>fs = [(''/srv'', Directory), (''/srv/nodes'', Directory), (''/srv/root'', Directory),
            (''/srv/overlay'', Directory), (''/srv/nodes/AABBCCDD'', Directory),
            (''/srv/nodes/C0A80101'', Directory), (''/srv/nodes/C0A80101/etc'', Directory),
            (''/srv/nodes/README'', RegularFile)],
      mounts = [''/srv/nodes/C0A80101''], denied = [], sh = working_sh, shell_log = [],
      uid = 0, gid = 0\<rparr>"

section \<open>The identifier codec is a bijection between octets and tokens\<close>


lemma split_on_nonempty: "split_on c s \<noteq> []"
  by (induction s) (auto split: list.splits)

lemma join_split: "join_with [c] (split_on c s) = s"
proof (induction s)
  case Nil
  then show ?case by simp
next
  case (Cons x xs)
  show ?case
  proof (cases "x = c")
    case True
    with Cons show ?thesis
      by (cases "split_on c xs") (auto simp: split_on_nonempty)
  next
    case False
    obtain p ps where sp: "split_on c xs = p # ps"
      using split_on_nonempty[of c xs] by (cases "split_on c xs") auto
    with Cons False show ?thesis
      by (cases ps) auto
  qed
qed

lemma split_on_no_sep: "c \<notin> set p \<Longrightarrow> split_on c p = [p]"
  by (induction p) auto

lemma split_on_append: "c \<notin> set p \<Longrightarrow> split_on c (p @ c # r) = p # split_on c r"
  by (induction p) auto

lemma digits_value_snoc: "digits_value b (ds @ [c]) = digits_value b ds * b + digit_value c"
  by (simp add: digits_value_def)

lemma digits_value_single: "digits_value b [c] = digit_value c"
  by (simp add: digits_value_def)

lemma dec_char_cases: "dec_char c \<Longrightarrow> digit_value c < 10 \<and> digit_char (digit_value c) = c \<and> \<not> isspace c \<and> c \<noteq> CHR ''-'' \<and> c \<noteq> CHR ''+'' \<and> c \<noteq> CHR ''.''"
  unfolding dec_char_def by (auto simp: digit_value_def digit_char_def isspace_def)

lemma upper_hex_cases: "upper_hex c \<Longrightarrow> digit_value c < 16 \<and> digit_char (digit_value c) = c \<and> \<not> isspace c \<and> c \<noteq> CHR ''-'' \<and> c \<noteq> CHR ''+''"
  unfolding upper_hex_def by (auto simp: digit_value_def digit_char_def isspace_def)

lemma digit_char_dec: "d < 10 \<Longrightarrow> dec_char (digit_char d) \<and> digit_value (digit_char d) = d"
proof -
  assume "d < 10"
  then have "d \<in> {0,1,2,3,4,5,6,7,8,9}" by (simp, arith)
  then show ?thesis
    by (auto simp: digit_char_def dec_char_def digit_value_def)
qed

lemma digit_char_hex: "d < 16 \<Longrightarrow> upper_hex (digit_char d) \<and> digit_value (digit_char d) = d"
proof -
  assume "d < 16"
  then have "d \<in> {0,1,2,3,4,5,6,7,8,9,10,11,12,13,14,15}" by (simp, arith)
  then show ?thesis
    by (auto simp: digit_char_def upper_hex_def digit_value_def)
qed


lemma dec_digits_props:
  "list_all dec_char (dec_digits n) \<and> dec_digits n \<noteq> [] \<and> digits_value 10 (dec_digits n) = n"
proof (induction n rule: dec_digits.induct)
  case (1 n)
  show ?case
  proof (cases "n < 10")
    case True
    then show ?thesis
      by (simp add: dec_digits.simps[of n] digits_value_single digit_char_dec)
  next
    case False
    moreover have "n mod 10 < 10" by simp
    ultimately show ?thesis
      using 1 by (simp add: dec_digits.simps[of n] digits_value_snoc digit_char_dec)
  qed
qed

lemma py_int_digits:
  assumes "ds \<noteq> []" "list_all (\<lambda>c. digit_value c < b \<and> \<not> isspace c \<and> c \<noteq> CHR ''-'' \<and> c \<noteq> CHR ''+'') ds"
    and "b = 16 \<longrightarrow> skip_0x ds = ds"
  shows "py_int b ds = Inr (int (digits_value b ds))"
proof -
  obtain c r where ds: "ds = c # r" using assms(1) by (cases ds) auto
  have all: "\<forall>x\<in>set ds. digit_value x < b" using assms(2) by (auto simp: list_all_iff)
  have tw: "takeWhile (\<lambda>c. digit_value c < b) ds = ds" using all by (simp add: takeWhile_eq_all_conv)
  have dw: "dropWhile (\<lambda>c. digit_value c < b) ds = []" using all by simp
  have c: "\<not> isspace c" "c \<noteq> CHR ''-''" "c \<noteq> CHR ''+''" using assms(2) ds by auto
  have f1: "dropWhile isspace ds = ds" using c ds by simp
  have f2: "(ds \<noteq> [] \<and> hd ds = CHR ''-'') = False" using c ds by simp
  have f3: "(ds \<noteq> [] \<and> (hd ds = CHR ''-'' \<or> hd ds = CHR ''+'')) = False" using c ds by simp
  have f4: "(if b = 16 then skip_0x ds else ds) = ds" using assms(3) by simp
  have f5: "dropWhile isspace [] = ([]::string)" by simp
  show ?thesis
    unfolding py_int_def Let_def f1 f2 f3 if_False f4 tw dw f5
    using assms(1) by simp
qed

lemma py_int_dec_digits: "py_int 10 (dec_digits n) = Inr (int n)"
proof -
  have "list_all (\<lambda>c. digit_value c < 10 \<and> \<not> isspace c \<and> c \<noteq> CHR ''-'' \<and> c \<noteq> CHR ''+'') (dec_digits n)"
    using dec_digits_props[of n] dec_char_cases by (auto simp: list_all_iff)
  then show ?thesis
    using py_int_digits[of "dec_digits n" 10] dec_digits_props[of n] by simp
qed

lemma digits_value_pos:
  "ds \<noteq> [] \<Longrightarrow> list_all dec_char ds \<Longrightarrow> hd ds \<noteq> CHR ''0'' \<Longrightarrow> 0 < digits_value 10 ds"
proof (induction ds rule: rev_induct)
  case Nil
  then show ?case by simp
next
  case (snoc c ds)
  show ?case
  proof (cases "ds = []")
    case True
    with snoc.prems show ?thesis
      unfolding dec_char_def by (auto simp: digits_value_single digit_value_def)
  next
    case False
    with snoc show ?thesis by (simp add: digits_value_snoc)
  qed
qed

lemma dec_digits_canonical:
  "ds \<noteq> [] \<Longrightarrow> list_all dec_char ds \<Longrightarrow> length ds = 1 \<or> hd ds \<noteq> CHR ''0''
     \<Longrightarrow> dec_digits (digits_value 10 ds) = ds"
proof (induction ds rule: rev_induct)
  case Nil
  then show ?case by simp
next
  case (snoc c ds)
  have c: "dec_char c" using snoc.prems by simp
  show ?case
  proof (cases "ds = []")
    case True
    then show ?thesis
      using dec_char_cases[OF c] by (simp add: digits_value_single dec_digits.simps)
  next
    case False
    then have hd: "hd ds \<noteq> CHR ''0''" using snoc.prems by auto
    have all: "list_all dec_char ds" using snoc.prems by simp
    have pos: "0 < digits_value 10 ds" using digits_value_pos[OF False all hd] .
    have ih: "dec_digits (digits_value 10 ds) = ds" using snoc.IH False all hd by simp
    have d: "digit_value c < 10" "digit_char (digit_value c) = c" using dec_char_cases[OF c] by auto
    have v: "digits_value 10 (ds @ [c]) = digits_value 10 ds * 10 + digit_value c"
      by (rule digits_value_snoc)
    have "\<not> digits_value 10 (ds @ [c]) < 10" using pos v by simp
    moreover have "digits_value 10 (ds @ [c]) div 10 = digits_value 10 ds" using v d by simp
    moreover have "digits_value 10 (ds @ [c]) mod 10 = digit_value c" using v d by simp
    ultimately show ?thesis
      using ih d by (simp add: dec_digits.simps[of "digits_value 10 (ds @ [c])"])
  qed
qed

lemma valid_octet_roundtrip:
  assumes "valid_octet p"
  shows "py_int 10 p = Inr (int (digits_value 10 p)) \<and> digits_value 10 p < 256 \<and>
         py_str (int (digits_value 10 p)) = p"
proof -
  have p: "p \<noteq> []" "list_all dec_char p" "length p = 1 \<or> hd p \<noteq> CHR ''0''" "digits_value 10 p \<le> 255"
    using assms by (auto simp: valid_octet_def)
  have "list_all (\<lambda>c. digit_value c < 10 \<and> \<not> isspace c \<and> c \<noteq> CHR ''-'' \<and> c \<noteq> CHR ''+'') p"
    using p(2) dec_char_cases by (auto simp: list_all_iff)
  then have "py_int 10 p = Inr (int (digits_value 10 p))"
    using py_int_digits[of p 10] p(1) by simp
  moreover have "py_str (int (digits_value 10 p)) = p"
    using dec_digits_canonical[OF p(1) p(2) p(3)] by (simp add: py_str_def)
  ultimately show ?thesis using p(4) by simp
qed

lemma fmt_02X_byte:
  assumes "n < 256"
  shows "fmt_02X (int n) = [digit_char (n div 16), digit_char (n mod 16)]"
proof (cases "n < 16")
  case True
  then show ?thesis by (simp add: fmt_02X_def hex_digits.simps digit_char_def)
next
  case False
  then have "n div 16 < 16" using assms by simp
  with False show ?thesis
    by (simp add: fmt_02X_def hex_digits.simps[of n] hex_digits.simps[of "n div 16"])
qed

lemma py_int_hex_pair:
  assumes "upper_hex c" "upper_hex d"
  shows "py_int 16 [c, d] = Inr (int (digit_value c * 16 + digit_value d))"
proof -
  have "list_all (\<lambda>c. digit_value c < 16 \<and> \<not> isspace c \<and> c \<noteq> CHR ''-'' \<and> c \<noteq> CHR ''+'') [c, d]"
    using upper_hex_cases[OF assms(1)] upper_hex_cases[OF assms(2)] by simp
  moreover have "skip_0x [c, d] = [c, d]" by (simp add: skip_0x_def)
  ultimately have "py_int 16 [c, d] = Inr (int (digits_value 16 [c, d]))"
    using py_int_digits[of "[c, d]" 16] by simp
  then show ?thesis by (simp add: digits_value_def)
qed


lemma byte_of_pair:
  assumes "n < 256"
  shows "py_int 16 (fmt_02X (int n)) = Inr (int n) \<and>
         (\<exists>c d. fmt_02X (int n) = [c, d] \<and> upper_hex c \<and> upper_hex d)"
proof -
  have lt: "n div 16 < 16" "n mod 16 < 16" using assms by simp_all
  have f: "fmt_02X (int n) = [digit_char (n div 16), digit_char (n mod 16)]"
    using fmt_02X_byte[OF assms] .
  have h: "upper_hex (digit_char (n div 16))" "upper_hex (digit_char (n mod 16))"
    "digit_value (digit_char (n div 16)) = n div 16" "digit_value (digit_char (n mod 16)) = n mod 16"
    using digit_char_hex[OF lt(1)] digit_char_hex[OF lt(2)] by simp_all
  have "py_int 16 (fmt_02X (int n)) = Inr (int (n div 16 * 16 + n mod 16))"
    unfolding f using py_int_hex_pair[OF h(1) h(2)] h(3) h(4) by simp
  then show ?thesis using f h by simp
qed

lemma pair_of_byte:
  assumes "upper_hex c" "upper_hex d"
  shows "digit_value c * 16 + digit_value d < 256 \<and>
         fmt_02X (int (digit_value c * 16 + digit_value d)) = [c, d]"
proof -
  have c: "digit_value c < 16" "digit_char (digit_value c) = c" using upper_hex_cases[OF assms(1)] by auto
  have d: "digit_value d < 16" "digit_char (digit_value d) = d" using upper_hex_cases[OF assms(2)] by auto
  have lt: "digit_value c * 16 + digit_value d < 256" using c(1) d(1) by simp
  have "(digit_value c * 16 + digit_value d) div 16 = digit_value c"
       "(digit_value c * 16 + digit_value d) mod 16 = digit_value d"
    using d(1) by simp_all
  then show ?thesis using fmt_02X_byte[OF lt] c(2) d(2) lt by simp
qed

lemma length4: "length xs = 4 \<Longrightarrow> \<exists>a b c d. xs = [a, b, c, d]"
  by (auto simp: numeral_eq_Suc length_Suc_conv)

lemma length8: "length xs = 8 \<Longrightarrow> \<exists>a b c d e f g h. xs = [a, b, c, d, e, f, g, h]"
  by (auto simp: numeral_eq_Suc length_Suc_conv)

lemma slices8:
  "py_slice [a, b, c, d, e, f, g, h] 0 2 = [a, b]"
  "py_slice [a, b, c, d, e, f, g, h] 2 4 = [c, d]"
  "py_slice [a, b, c, d, e, f, g, h] 4 6 = [e, f]"
  "py_slice [a, b, c, d, e, f, g, h] 6 8 = [g, h]"
  by (simp_all add: py_slice_def)

lemma hex2ip_of_bytes:
  assumes "n1 < 256" "n2 < 256" "n3 < 256" "n4 < 256"
  shows "hex2ip (concat (map fmt_02X [int n1, int n2, int n3, int n4])) =
           Inr (join_with ''.'' (map py_str [int n1, int n2, int n3, int n4])) \<and>
         hex_token (concat (map fmt_02X [int n1, int n2, int n3, int n4]))"
proof -
  obtain a b where 1: "fmt_02X (int n1) = [a, b]" "upper_hex a" "upper_hex b"
    using byte_of_pair[OF assms(1)] by auto
  obtain c d where 2: "fmt_02X (int n2) = [c, d]" "upper_hex c" "upper_hex d"
    using byte_of_pair[OF assms(2)] by auto
  obtain e f where 3: "fmt_02X (int n3) = [e, f]" "upper_hex e" "upper_hex f"
    using byte_of_pair[OF assms(3)] by auto
  obtain g h where 4: "fmt_02X (int n4) = [g, h]" "upper_hex g" "upper_hex h"
    using byte_of_pair[OF assms(4)] by auto
  have cat: "concat (map fmt_02X [int n1, int n2, int n3, int n4]) = [a, b, c, d, e, f, g, h]"
    using 1 2 3 4 by simp
  have p: "py_int 16 [a, b] = Inr (int n1)" "py_int 16 [c, d] = Inr (int n2)"
          "py_int 16 [e, f] = Inr (int n3)" "py_int 16 [g, h] = Inr (int n4)"
    using byte_of_pair[OF assms(1)] byte_of_pair[OF assms(2)] byte_of_pair[OF assms(3)]
      byte_of_pair[OF assms(4)] 1 2 3 4 by simp_all
  show ?thesis
    unfolding cat using p 1 2 3 4 by (simp add: hex2ip_def slices8 hex_token_def)
qed

lemma decode_encode:
  assumes "valid_dotted_quad a"
  shows "\<exists>h. ip2hex a = Inr h \<and> hex_token h \<and> hex2ip h = Inr a"
proof -
  obtain p1 p2 p3 p4 where sp: "split_on (CHR ''.'') a = [p1, p2, p3, p4]"
    using assms length4 unfolding valid_dotted_quad_def by blast
  have v: "valid_octet p1" "valid_octet p2" "valid_octet p3" "valid_octet p4"
    using assms sp by (simp_all add: valid_dotted_quad_def)
  note r1 = valid_octet_roundtrip[OF v(1)] and r2 = valid_octet_roundtrip[OF v(2)]
    and r3 = valid_octet_roundtrip[OF v(3)] and r4 = valid_octet_roundtrip[OF v(4)]
  let ?ns = "[int (digits_value 10 p1), int (digits_value 10 p2), int (digits_value 10 p3),
              int (digits_value 10 p4)]"
  have enc: "ip2hex a = Inr (concat (map fmt_02X ?ns))"
    using r1 r2 r3 r4 by (simp add: ip2hex_def sp)
  have "join_with ''.'' (map py_str ?ns) = join_with ''.'' (split_on (CHR ''.'') a)"
    using r1 r2 r3 r4 by (simp add: sp)
  then have bk: "join_with ''.'' (map py_str ?ns) = a"
    using join_split[of "CHR ''.''" a] by simp
  show ?thesis
    using enc bk hex2ip_of_bytes[of "digits_value 10 p1" "digits_value 10 p2"
        "digits_value 10 p3" "digits_value 10 p4"] r1 r2 r3 r4
    by simp
qed

lemma dec_digits_hd: "0 < n \<Longrightarrow> hd (dec_digits n) \<noteq> CHR ''0''"
proof (induction n rule: dec_digits.induct)
  case (1 n)
  show ?case
  proof (cases "n < 10")
    case True
    then have "n \<in> {0,1,2,3,4,5,6,7,8,9}" by (simp, arith)
    with 1 True show ?thesis by (auto simp: dec_digits.simps digit_char_def)
  next
    case False
    then have "0 < n div 10" by simp
    with 1 False have "hd (dec_digits (n div 10)) \<noteq> CHR ''0''" by simp
    moreover have "dec_digits (n div 10) \<noteq> []" using dec_digits_props by simp
    ultimately show ?thesis using False by (simp add: dec_digits.simps[of n])
  qed
qed

lemma valid_octet_dec_digits:
  assumes "n < 256"
  shows "valid_octet (dec_digits n) \<and> CHR ''.'' \<notin> set (dec_digits n)"
proof -
  have p: "list_all dec_char (dec_digits n)" "dec_digits n \<noteq> []" "digits_value 10 (dec_digits n) = n"
    using dec_digits_props[of n] by simp_all
  have "length (dec_digits n) = 1 \<or> hd (dec_digits n) \<noteq> CHR ''0''"
  proof (cases "n = 0")
    case True
    then show ?thesis by (simp add: dec_digits.simps)
  next
    case False
    then show ?thesis using dec_digits_hd[of n] by simp
  qed
  moreover have "CHR ''.'' \<notin> set (dec_digits n)"
    using p(1) dec_char_cases by (auto simp: list_all_iff)
  ultimately show ?thesis using p assms by (simp add: valid_octet_def)
qed

lemma encode_decode:
  assumes "hex_token s"
  shows "\<exists>a. hex2ip s = Inr a \<and> valid_dotted_quad a \<and> ip2hex a = Inr s"
proof -
  obtain a b c d e f g h where s: "s = [a, b, c, d, e, f, g, h]"
    using assms length8 unfolding hex_token_def by blast
  have u: "upper_hex a" "upper_hex b" "upper_hex c" "upper_hex d"
          "upper_hex e" "upper_hex f" "upper_hex g" "upper_hex h"
    using assms s by (simp_all add: hex_token_def)
  define n1 where "n1 = digit_value a * 16 + digit_value b"
  define n2 where "n2 = digit_value c * 16 + digit_value d"
  define n3 where "n3 = digit_value e * 16 + digit_value f"
  define n4 where "n4 = digit_value g * 16 + digit_value h"
  have b1: "n1 < 256" "fmt_02X (int n1) = [a, b]" using pair_of_byte[OF u(1) u(2)] by (simp_all add: n1_def)
  have b2: "n2 < 256" "fmt_02X (int n2) = [c, d]" using pair_of_byte[OF u(3) u(4)] by (simp_all add: n2_def)
  have b3: "n3 < 256" "fmt_02X (int n3) = [e, f]" using pair_of_byte[OF u(5) u(6)] by (simp_all add: n3_def)
  have b4: "n4 < 256" "fmt_02X (int n4) = [g, h]" using pair_of_byte[OF u(7) u(8)] by (simp_all add: n4_def)
  have cat: "concat (map fmt_02X [int n1, int n2, int n3, int n4]) = s"
    using b1 b2 b3 b4 s by simp
  let ?a = "dec_digits n1 @ ''.'' @ dec_digits n2 @ ''.'' @ dec_digits n3 @ ''.'' @ dec_digits n4"
  have dec: "hex2ip s = Inr ?a"
    using hex2ip_of_bytes[OF b1(1) b2(1) b3(1) b4(1)] unfolding cat by (simp add: py_str_def)
  note o1 = valid_octet_dec_digits[OF b1(1)] and o2 = valid_octet_dec_digits[OF b2(1)]
    and o3 = valid_octet_dec_digits[OF b3(1)] and o4 = valid_octet_dec_digits[OF b4(1)]
  have sp: "split_on (CHR ''.'') ?a = [dec_digits n1, dec_digits n2, dec_digits n3, dec_digits n4]"
    using o1 o2 o3 o4 by (simp add: split_on_append split_on_no_sep)
  have vq: "valid_dotted_quad ?a"
    unfolding valid_dotted_quad_def sp using o1 o2 o3 o4 by simp
  have "ip2hex ?a = Inr (concat (map fmt_02X [int n1, int n2, int n3, int n4]))"
    unfolding ip2hex_def sp by (simp add: py_int_dec_digits)
  then show ?thesis using dec vq cat by simp
qed

text \<open>
  C2, as the code has it. For every dotted quad of four decimal octets written as
  \<^verbatim>\<open>str\<close> writes them (digits only, no leading zero, 0 to 255), \<open>ip2hex\<close> returns a
  token of eight upper-case hexadecimal digits and \<open>hex2ip\<close> of that token returns the
  address. For every token of eight upper-case hexadecimal digits, \<open>hex2ip\<close> returns such
  a dotted quad and \<open>ip2hex\<close> of it returns the token.
\<close>

theorem codec_roundtrip:
  "(valid_dotted_quad a \<longrightarrow> (\<exists>h. ip2hex a = Inr h \<and> hex_token h \<and> hex2ip h = Inr a)) \<and>
   (hex_token s \<longrightarrow> (\<exists>b. hex2ip s = Inr b \<and> valid_dotted_quad b \<and> ip2hex b = Inr s))"
  using decode_encode[of a] encode_decode[of s] by blast

theorem codec_roundtrip_witness:
  "valid_dotted_quad ''192.168.1.1'' \<and>
   (\<exists>h. ip2hex ''192.168.1.1'' = Inr h \<and> hex_token h \<and> hex2ip h = Inr ''192.168.1.1'') \<and>
   hex_token ''C0A80101'' \<and>
   (\<exists>b. hex2ip ''C0A80101'' = Inr b \<and> valid_dotted_quad b \<and> ip2hex b = Inr ''C0A80101'')"
proof -
  have v: "valid_dotted_quad ''192.168.1.1''"
    by (simp add: valid_dotted_quad_def valid_octet_def dec_char_def digits_value_def
        digit_value_def)
  have t: "hex_token ''C0A80101''"
    by (simp add: hex_token_def upper_hex_def)
  show ?thesis
    using codec_roundtrip[of "''192.168.1.1''" "''C0A80101''"] v t by blast
qed

text \<open>
  C2 as stated ranges over every string of the shape \<^verbatim>\<open>[A-Z0-9]{8}\<close>. The string
  \<^verbatim>\<open>GGGGGGGG\<close> has that shape and \<open>hex2ip\<close> raises \<^verbatim>\<open>ValueError\<close> on it, so there is
  no address to encode back.
\<close>

theorem codec_roundtrip_counterexample:
  "length ''GGGGGGGG'' = 8 \<and> list_all node_char ''GGGGGGGG'' \<and>
   hex2ip ''GGGGGGGG'' = Inl ValueError"
  by code_simp

section \<open>The template: acceptance and rendered length\<close>


lemma find_from_absent:
  "sub \<noteq> [] \<Longrightarrow> (find_from sub s i = - 1) = (occurrences sub s = 0)"
  by (induction s arbitrary: i) auto

lemma occurrences_marker_skip:
  assumes "prefix marker s"
  shows "occurrences marker s = Suc (occurrences marker (drop 6 s))"
proof -
  obtain r where "s = marker @ r" using assms by (auto elim: prefixE)
  then show ?thesis by (simp add: marker_def)
qed

lemma replace_from_length:
  "int (length (replace_from marker new s)) =
     int (length s) + int (occurrences marker s) * (int (length new) - 6)"
proof (induction marker new s rule: replace_from.induct)
  case (1 new)
  then show ?case by simp
next
  case (2 new c cs)
  show ?case
  proof (cases "prefix marker (c # cs)")
    case True
    then obtain r where r: "c # cs = marker @ r" by (auto elim: prefixE)
    then have cs: "cs = ''NODE>'' @ r" by (simp add: marker_def)
    have d: "drop (length marker - 1) cs = r" by (simp add: cs marker_def)
    have o: "occurrences marker (c # cs) = Suc (occurrences marker r)"
      using occurrences_marker_skip[OF True] r by (simp add: marker_def)
    have ih: "int (length (replace_from marker new r)) =
        int (length r) + int (occurrences marker r) * (int (length new) - 6)"
      using 2(1)[OF True, unfolded d] .
    have "replace_from marker new (c # cs) = new @ replace_from marker new r"
      using True d by simp
    then show ?thesis
      using ih o by (simp add: cs algebra_simps)
  next
    case False
    then show ?thesis using 2(2)[OF False] by simp
  qed
qed

lemma render_length:
  "int (length (get_pxe_data self node)) =
     int (length (pxe_template self)) +
     int (occurrences marker (pxe_template self)) * (int (length node) - 6)"
proof -
  have "marker \<noteq> []" by (simp add: marker_def)
  then show ?thesis
    by (simp add: get_pxe_data_def str_replace_def replace_from_length)
qed

lemma render_length_one_marker:
  assumes "load_template self0 t = Inr self" "occurrences marker t = 1" "length node = 8"
  shows "int (length (get_pxe_data self node)) = pxe_template_length self"
proof -
  have "self = self0\<lparr>pxe_template := t, pxe_template_length := int (length t) - int (length marker) + 8\<rparr>"
    using assms(1) by (auto simp: load_template_def split: if_splits)
  then show ?thesis
    using assms(2,3) render_length[of self node] by (simp add: marker_def)
qed

text \<open>
  C8, as the code has it. \<open>load_template\<close> fails, with \<^verbatim>\<open>PXEBootError\<close>, exactly when the
  marker \<^verbatim>\<open><NODE>\<close> does not occur in the template; with one occurrence or more it
  succeeds, stores the template and stores its length minus 6 plus 8 as the rendered length.
\<close>

theorem load_template_accepts:
  "load_template self t =
     (if occurrences marker t = 0
      then Inl (PXEBootError ''Could not find <NODE> in PXE config template'')
      else Inr (self\<lparr>pxe_template := t, pxe_template_length := int (length t) - 6 + 8\<rparr>))"
  using find_from_absent[of marker t 0]
  by (simp add: load_template_def str_find_def marker_def)

text \<open>
  C8 as stated makes two occurrences of the marker a fatal error. A template with two
  occurrences is accepted.
\<close>

theorem load_template_counterexample:
  "occurrences marker ''<NODE> <NODE>'' = 2 \<and>
   load_template sample_fs ''<NODE> <NODE>'' =
     Inr (sample_fs\<lparr>pxe_template := ''<NODE> <NODE>'', pxe_template_length := 15\<rparr>)"
  by (simp add: load_template_def str_find_def marker_def)

text \<open>
  C3 at a template that \<open>load_template\<close> accepts and that holds the marker twice: the
  rendering of the eight-character identifier \<^verbatim>\<open>0A0B0C0D\<close> has 17 characters, the stored
  rendered length is 15.
\<close>

theorem rendered_length_mismatch:
  "load_template sample_fs ''<NODE> <NODE>'' =
     Inr (sample_fs\<lparr>pxe_template := ''<NODE> <NODE>'', pxe_template_length := 15\<rparr>) \<and>
   get_pxe_data (sample_fs\<lparr>pxe_template := ''<NODE> <NODE>'', pxe_template_length := 15\<rparr>)
     ''0A0B0C0D'' = ''0A0B0C0D 0A0B0C0D'' \<and>
   int (length ''0A0B0C0D 0A0B0C0D'') = 17"
  by (simp add: load_template_def str_find_def marker_def get_pxe_data_def str_replace_def)

section \<open>Metadata and the fsid allocator\<close>


lemma mode_bits:
  "S_ISDIR (S_IFDIR OR 493)" "S_ISLNK (S_IFLNK OR 493)" "S_ISREG (S_IFREG OR 438)"
  "\<not> S_ISREG (S_IFDIR OR 493)" "\<not> S_ISLNK (S_IFDIR OR 493)"
  "\<not> S_ISDIR (S_IFLNK OR 493)" "\<not> S_ISREG (S_IFLNK OR 493)"
  "\<not> S_ISDIR (S_IFREG OR 438)" "\<not> S_ISLNK (S_IFREG OR 438)"
  by (simp_all add: S_ISDIR_def S_ISLNK_def S_ISREG_def S_IFDIR_def S_IFLNK_def S_IFREG_def
      S_IFMT_def)

lemma basename_top: "slash \<notin> set ident \<Longrightarrow> basename (slash # ident) = ident"
proof -
  assume a: "slash \<notin> set ident"
  have "takeWhile (\<lambda>c. c \<noteq> slash) (rev ident @ [slash]) = rev ident @ takeWhile (\<lambda>c. c \<noteq> slash) [slash]"
    using a by (intro takeWhile_append2) auto
  then show ?thesis by (simp add: basename_def)
qed

lemma node_char_not_slash: "node_char c \<Longrightarrow> c \<noteq> slash"
  by (auto simp: node_char_def slash_def)

lemma prefix_by_ip_length: "prefix ''/by-ip/'' path \<Longrightarrow> length ''/by-ip'' < length path"
  by (auto elim!: prefixE)

text \<open>
  C7, as the code has it. \<open>getattr\<close> reports a directory for \<^verbatim>\<open>/\<close> and \<^verbatim>\<open>/by-ip\<close>; a
  symbolic link for every path that starts with \<^verbatim>\<open>/by-ip/\<close>; a regular file of the stored
  rendered length for every other path whose base name, at any depth, matches the
  identifier pattern, and so for every top-level path named by eight characters of
  \<^verbatim>\<open>[A-Z0-9]\<close>; and \<^verbatim>\<open>-ENOENT\<close> for every path left.
\<close>

theorem getattr_classifies:
  "(path = ''/'' \<or> path = ''/by-ip'' \<longrightarrow>
      (\<exists>s. getattr self os path = Inr s \<and> S_ISDIR (st_mode s) \<and> st_size s = 4096)) \<and>
   (prefix ''/by-ip/'' path \<longrightarrow>
      (\<exists>s. getattr self os path = Inr s \<and> S_ISLNK (st_mode s) \<and> st_size s = 4096)) \<and>
   (\<not> prefix ''/by-ip/'' path \<and> node_re_match (basename path) \<longrightarrow>
      (\<exists>s. getattr self os path = Inr s \<and> S_ISREG (st_mode s) \<and>
           st_size s = pxe_template_length self)) \<and>
   (length ident = 8 \<and> list_all node_char ident \<longrightarrow>
      (\<exists>s. getattr self os (slash # ident) = Inr s \<and> S_ISREG (st_mode s) \<and>
           st_size s = pxe_template_length self)) \<and>
   (path \<noteq> ''/'' \<and> path \<noteq> ''/by-ip'' \<and> \<not> prefix ''/by-ip/'' path \<and>
    \<not> node_re_match (basename path) \<longrightarrow> getattr self os path = Inl (- ENOENT))"
proof (intro conjI impI)
  assume "path = ''/'' \<or> path = ''/by-ip''"
  then show "\<exists>s. getattr self os path = Inr s \<and> S_ISDIR (st_mode s) \<and> st_size s = 4096"
    by (auto simp: getattr_def mode_bits)
next
  assume p: "prefix ''/by-ip/'' path"
  then have "path \<noteq> ''/''" "path \<noteq> ''/by-ip''" by auto
  then show "\<exists>s. getattr self os path = Inr s \<and> S_ISLNK (st_mode s) \<and> st_size s = 4096"
    using p prefix_by_ip_length[OF p] by (simp add: getattr_def mode_bits)
next
  assume a: "\<not> prefix ''/by-ip/'' path \<and> node_re_match (basename path)"
  then have "path \<noteq> ''/''" "path \<noteq> ''/by-ip''"
    by (auto simp: basename_def slash_def node_re_match_def node_char_def)
  then show "\<exists>s. getattr self os path = Inr s \<and> S_ISREG (st_mode s) \<and>
      st_size s = pxe_template_length self"
    using a by (simp add: getattr_def mode_bits)
next
  assume a: "length ident = 8 \<and> list_all node_char ident"
  then have ns: "slash \<notin> set ident" using node_char_not_slash by (auto simp: list_all_iff)
  have b: "basename (slash # ident) = ident" using basename_top[OF ns] .
  have m: "node_re_match ident" using a by (simp add: node_re_match_def)
  obtain c r where ir: "ident = c # r" using a by (cases ident) auto
  have "node_char c" using a ir by simp
  then have "c \<noteq> CHR ''b''" by (auto simp: node_char_def)
  then have np: "\<not> prefix ''/by-ip/'' (slash # ident)" "slash # ident \<noteq> ''/''"
      "slash # ident \<noteq> ''/by-ip''"
    using ir by (auto simp: slash_def)
  show "\<exists>s. getattr self os (slash # ident) = Inr s \<and> S_ISREG (st_mode s) \<and>
      st_size s = pxe_template_length self"
    using np b m by (simp add: getattr_def mode_bits slash_def)
next
  assume "path \<noteq> ''/'' \<and> path \<noteq> ''/by-ip'' \<and> \<not> prefix ''/by-ip/'' path \<and>
    \<not> node_re_match (basename path)"
  then show "getattr self os path = Inl (- ENOENT)"
    by (simp add: getattr_def)
qed

text \<open>
  The four kinds at \<^verbatim>\<open>/\<close>, \<^verbatim>\<open>/by-ip/192.168.1.1\<close>, \<^verbatim>\<open>/C0A80101\<close>, \<^verbatim>\<open>/x/C0A80101\<close> and
  \<^verbatim>\<open>/nope\<close>.
\<close>

theorem getattr_classifies_witness:
  "(\<exists>s. getattr sample_fs sample_os ''/'' = Inr s \<and> S_ISDIR (st_mode s) \<and> st_size s = 4096) \<and>
   (\<exists>s. getattr sample_fs sample_os ''/by-ip/192.168.1.1'' = Inr s \<and> S_ISLNK (st_mode s) \<and>
        st_size s = 4096) \<and>
   (\<exists>s. getattr sample_fs sample_os ''/C0A80101'' = Inr s \<and> S_ISREG (st_mode s) \<and>
        st_size s = 37) \<and>
   (\<exists>s. getattr sample_fs sample_os ''/x/C0A80101'' = Inr s \<and> S_ISREG (st_mode s) \<and>
        st_size s = 37) \<and>
   getattr sample_fs sample_os ''/nope'' = Inl (- 2)"
proof -
  have 1: "prefix ''/by-ip/'' ''/by-ip/192.168.1.1''" by simp
  have 2: "length ''C0A80101'' = 8 \<and> list_all node_char ''C0A80101''"
    by (simp add: node_char_def)
  have 3: "''/nope'' \<noteq> ''/'' \<and> ''/nope'' \<noteq> ''/by-ip'' \<and> \<not> prefix ''/by-ip/'' ''/nope'' \<and>
      \<not> node_re_match (basename ''/nope'')"
    by (simp add: node_re_match_def basename_def slash_def)
  have 4: "pxe_template_length sample_fs = 37" by (simp add: sample_fs_def)
  have 5: "\<not> prefix ''/by-ip/'' ''/x/C0A80101'' \<and> node_re_match (basename ''/x/C0A80101'')"
    by (simp add: node_re_match_def basename_def slash_def node_char_def)
  have 6: "\<exists>s. getattr sample_fs sample_os ''/x/C0A80101'' = Inr s \<and> S_ISREG (st_mode s) \<and>
        st_size s = 37"
    using getattr_classifies[of "''/x/C0A80101''" sample_fs sample_os "''C0A80101''"] 5 4
    by simp
  show ?thesis
    using getattr_classifies[of "''/''" sample_fs sample_os "''C0A80101''"]
      getattr_classifies[of "''/by-ip/192.168.1.1''" sample_fs sample_os "''C0A80101''"]
      getattr_classifies[of "''/nope''" sample_fs sample_os "''C0A80101''"]
      1 2 3 4 6
    by (simp add: slash_def ENOENT_def)
qed

text \<open>
  C7 as stated answers "not found" for every path outside the four patterns. The path
  \<^verbatim>\<open>/nope/0A0B0C0D\<close> is not at the top level, its parent \<^verbatim>\<open>/nope\<close> is not found, and
  \<open>getattr\<close> reports a regular file for it: only the base name is matched.
\<close>

theorem getattr_counterexample:
  "basename ''/nope/0A0B0C0D'' = ''0A0B0C0D'' \<and> dirname ''/nope/0A0B0C0D'' = ''/nope'' \<and>
   getattr sample_fs sample_os ''/nope'' = Inl (- 2) \<and>
   getattr sample_fs sample_os ''/nope/0A0B0C0D'' =
     Inr \<lparr>st_atime = 0, st_ctime = 0, st_mtime = 0, st_dev = 0, st_gid = 0, st_ino = 0,
          st_mode = 33206, st_size = 37, st_uid = 0, st_nlink = 1\<rparr> \<and>
   S_ISREG 33206"
  by code_simp

lemma fsid_calls_values:
  "fst (fsid_calls n self) = map (\<lambda>k. next_fsid self + int k) [0..<n] \<and>
   next_fsid (snd (fsid_calls n self)) = next_fsid self + int n \<and>
   snd (fsid_calls n self) = self\<lparr>next_fsid := next_fsid self + int n\<rparr>"
proof (induction n arbitrary: self)
  case 0
  then show ?case by simp
next
  case (Suc n)
  have m: "map (\<lambda>k. next_fsid self + int k) [0..<Suc n] =
      next_fsid self # map (\<lambda>k. next_fsid self + 1 + int k) [0..<n]"
    by (simp add: upt_rec[of 0 "Suc n"] map_Suc_upt[symmetric] del: upt_Suc)
  show ?case
    using Suc[of "snd (get_next_fsid self)"] m
    by (simp add: Let_def get_next_fsid_def del: upt_Suc)
qed

text \<open>
  C6, as the code has it. Calls of \<open>get_next_fsid\<close> that run one after the other return
  the seed, the seed plus one, and so on: the values are pairwise distinct and strictly
  increasing, and the counter ends at the seed plus the number of calls. One call whose
  three statements run without another call in between is \<open>get_next_fsid\<close>.
\<close>

theorem fsid_sequential:
  "fst (fsid_calls n self) = map (\<lambda>k. next_fsid self + int k) [0..<n] \<and>
   distinct (fst (fsid_calls n self)) \<and>
   sorted_wrt (<) (fst (fsid_calls n self)) \<and>
   next_fsid (snd (fsid_calls n self)) = next_fsid self + int n \<and>
   run_calls [0, 0, 0] [Called] self =
     ([Returned (fst (get_next_fsid self))], snd (get_next_fsid self))"
proof -
  have inj: "inj_on (\<lambda>k. next_fsid self + int k) (set [0..<n])"
    by (auto simp: inj_on_def)
  have srt: "sorted_wrt (<) (map (\<lambda>k. next_fsid self + int k) [0..<n])"
    by (simp add: sorted_wrt_map sorted_wrt_iff_nth_less)
  have run: "run_calls [0, 0, 0] [Called] self =
      ([Returned (fst (get_next_fsid self))], snd (get_next_fsid self))"
    by (simp add: call_step_def get_next_fsid_def)
  show ?thesis
    using fsid_calls_values[of n self] inj srt run by (simp add: distinct_map)
qed

text \<open>
  C6 as stated holds for any interleaving of concurrent calls. Two calls whose statements
  alternate both read the counter before either has written it, and both return 100000.
\<close>

theorem fsid_interleaved_counterexample:
  "run_calls [0, 1, 0, 1, 0, 1] [Called, Called] sample_fs =
     ([Returned 100000, Returned 100000], sample_fs\<lparr>next_fsid := 100002\<rparr>)"
  by (simp add: call_step_def sample_fs_def)

section \<open>Provisioning a node\<close>


lemma ensure_dir_ok:
  "creatable os p \<Longrightarrow> ensure_dir p os = Inr (os\<lparr>fs := fs os @ made os p\<rparr>)"
  by (auto simp: creatable_def ensure_dir_def mkdir_def made_def path_exists_def isdir_def
      intro: rev_image_eqI)

lemma creatable_grows:
  "creatable os p \<Longrightarrow> creatable (os\<lparr>fs := fs os @ xs\<rparr>) p"
  by (auto simp: creatable_def path_exists_def isdir_def)

lemma ensure_dir_sh:
  "ensure_dir p (os\<lparr>sh := f\<rparr>) = (case ensure_dir p os of Inl e \<Rightarrow> Inl e | Inr o1 \<Rightarrow> Inr (o1\<lparr>sh := f\<rparr>))"
  by (simp add: ensure_dir_def mkdir_def path_exists_def isdir_def)

lemma setup_node_run:
  assumes "creatable os (node_path_of self node)" "creatable os (overlay_path_of self node)"
  shows "setup_node self os node =
     (case hex2ip node of
        Inl e \<Rightarrow> (Inl e, self\<lparr>next_fsid := next_fsid self + 1\<rparr>, after_mount self os node)
      | Inr ip \<Rightarrow>
          (Inr node, self\<lparr>next_fsid := next_fsid self + 1\<rparr>,
           snd (system (export_cmd (node_path_of self node) (py_str (next_fsid self)) ip)
                  (after_mount self os node))))"
proof -
  let ?os1 = "os\<lparr>fs := fs os @ made os (node_path_of self node)\<rparr>"
  have 1: "ensure_dir (node_path_of self node) os = Inr ?os1"
    using ensure_dir_ok[OF assms(1)] .
  have "creatable ?os1 (overlay_path_of self node)"
    using creatable_grows[OF assms(2)] .
  then have 2: "ensure_dir (overlay_path_of self node) ?os1 = Inr (after_dirs self os node)"
    using ensure_dir_ok[of ?os1 "overlay_path_of self node"] by (simp add: after_dirs_def)
  show ?thesis
    unfolding setup_node_def Let_def 1 2 sum.case
    by (simp add: after_mount_def get_next_fsid_def split: sum.splits)
qed


lemma after_dirs_fields:
  "mounts (after_dirs self os node) = mounts os"
  "shell_log (after_dirs self os node) = shell_log os"
  "sh (after_dirs self os node) = sh os"
  "denied (after_dirs self os node) = denied os"
  by (simp_all add: after_dirs_def)

lemma after_dirs_isdir: "isdir os p \<Longrightarrow> isdir (after_dirs self os node) p"
  by (simp add: after_dirs_def isdir_def)

lemma after_dirs_exist:
  "path_exists (after_dirs self os node) (node_path_of self node)"
  "path_exists (after_dirs self os node) (overlay_path_of self node)"
  by (auto simp: after_dirs_def made_def path_exists_def)

lemma after_dirs_ismount:
  assumes "wf_os os"
  shows "ismount (after_dirs self os node) p = ismount os p"
proof (cases "p \<in> set (mounts os)")
  case True
  then have "isdir os p" using assms by (auto simp: wf_os_def list_all_iff)
  then show ?thesis using True after_dirs_isdir[of os p self node]
    by (simp add: ismount_def after_dirs_fields)
next
  case False
  then show ?thesis by (simp add: ismount_def after_dirs_fields)
qed

lemma wf_os_after_dirs: "wf_os os \<Longrightarrow> wf_os (after_dirs self os node)"
  using after_dirs_isdir by (auto simp: wf_os_def list_all_iff after_dirs_fields)

lemma wf_os_system: "wf_os os \<Longrightarrow> wf_os (snd (system cmd os))"
  by (auto simp: wf_os_def list_all_iff system_def isdir_def)

lemma system_fields:
  "fs (snd (system cmd os)) = fs os"
  "shell_log (snd (system cmd os)) = shell_log os @ [cmd]"
  "denied (snd (system cmd os)) = denied os"
  "sh (snd (system cmd os)) = sh os"
  by (simp_all add: system_def)

lemma after_mount_fields:
  assumes "wf_os os"
  shows "fs (after_mount self os node) = fs (after_dirs self os node)"
    and "shell_log (after_mount self os node) =
           shell_log os @ (if ismount os (node_path_of self node) then []
              else [mount_cmd (overlay_path_of self node) (conf_root_dir self)
                      (node_path_of self node)])"
    and "wf_os (after_mount self os node)"
  using after_dirs_ismount[OF assms, of self node "node_path_of self node"]
    wf_os_after_dirs[OF assms, of self node]
  by (simp_all add: after_mount_def system_fields after_dirs_fields wf_os_system)

lemma hex_token_decodes: "hex_token node \<Longrightarrow> \<exists>ip. hex2ip node = Inr ip"
  using encode_decode by blast

lemma setup_node_once:
  assumes "hex2ip node = Inr ip" "wf_os os"
    and "creatable os (node_path_of self node)" "creatable os (overlay_path_of self node)"
  shows "\<exists>os'. setup_node self os node = (Inr node, self\<lparr>next_fsid := next_fsid self + 1\<rparr>, os') \<and>
      fs os' = fs (after_dirs self os node) \<and>
      shell_log os' =
        shell_log os @
        (if ismount os (node_path_of self node) then []
         else [mount_cmd (overlay_path_of self node) (conf_root_dir self) (node_path_of self node)]) @
        [export_cmd (node_path_of self node) (py_str (next_fsid self)) ip] \<and>
      wf_os os'"
  using setup_node_run[OF assms(3,4)] assms(1) after_mount_fields[OF assms(2), of self node]
  by (simp add: system_fields wf_os_system)

lemma path_exists_fs: "fs os' = fs os \<Longrightarrow> path_exists os' p = path_exists os p"
  by (simp add: path_exists_def)

lemma after_dirs_idem:
  assumes "path_exists os (node_path_of self node)" "path_exists os (overlay_path_of self node)"
  shows "fs (after_dirs self os node) = fs os"
  using assms by (simp add: after_dirs_def made_def path_exists_def)

text \<open>
  C5, as the code has it. On a host whose mount points are directories and where both
  directories of the node exist or can be created, a call of \<open>setup_node\<close> for an identifier of eight upper-case
  hexadecimal digits returns the identifier and takes one fsid. It adds the mount-point
  directory and the overlay directory only where absent, issues the mount command only if
  the mount point is not a mount already, and then issues the export command for the mount
  point to the address \<open>hex2ip\<close> decodes, with \<^verbatim>\<open>no_root_squash\<close> and the fsid just taken.
  Called again once the node is mounted, it creates nothing, issues no mount command and
  issues the export command again with the next fsid.
\<close>

theorem setup_node_provisions:
  assumes "hex_token node" "wf_os os"
    and "creatable os (node_path_of self node)" "creatable os (overlay_path_of self node)"
  shows "\<exists>ip os'. hex2ip node = Inr ip \<and>
      setup_node self os node = (Inr node, self\<lparr>next_fsid := next_fsid self + 1\<rparr>, os') \<and>
      fs os' = fs os @ made os (node_path_of self node) @
                 made (os\<lparr>fs := fs os @ made os (node_path_of self node)\<rparr>)
                   (overlay_path_of self node) \<and>
      shell_log os' =
        shell_log os @
        (if ismount os (node_path_of self node) then []
         else [mount_cmd (overlay_path_of self node) (conf_root_dir self) (node_path_of self node)]) @
        [export_cmd (node_path_of self node) (py_str (next_fsid self)) ip] \<and>
      (ismount os' (node_path_of self node) \<longrightarrow>
         (\<exists>os''. setup_node (self\<lparr>next_fsid := next_fsid self + 1\<rparr>) os' node =
                   (Inr node, self\<lparr>next_fsid := next_fsid self + 2\<rparr>, os'') \<and>
                 fs os'' = fs os' \<and>
                 shell_log os'' =
                   shell_log os' @
                   [export_cmd (node_path_of self node) (py_str (next_fsid self + 1)) ip]))"
proof -
  obtain ip where ip: "hex2ip node = Inr ip" using hex_token_decodes[OF assms(1)] by blast
  let ?self1 = "self\<lparr>next_fsid := next_fsid self + 1\<rparr>"
  obtain os' where 1:
    "setup_node self os node = (Inr node, ?self1, os')"
    "fs os' = fs (after_dirs self os node)"
    "shell_log os' =
        shell_log os @
        (if ismount os (node_path_of self node) then []
         else [mount_cmd (overlay_path_of self node) (conf_root_dir self) (node_path_of self node)]) @
        [export_cmd (node_path_of self node) (py_str (next_fsid self)) ip]"
    "wf_os os'"
    using setup_node_once[OF ip assms(2,3,4)] by blast
  have ex: "path_exists os' (node_path_of ?self1 node)" "path_exists os' (overlay_path_of ?self1 node)"
    using after_dirs_exist[of self os node] path_exists_fs[OF 1(2)] by simp_all
  then have cr: "creatable os' (node_path_of ?self1 node)" "creatable os' (overlay_path_of ?self1 node)"
    by (simp_all add: creatable_def)
  have 2: "ismount os' (node_path_of self node) \<longrightarrow>
         (\<exists>os''. setup_node ?self1 os' node = (Inr node, self\<lparr>next_fsid := next_fsid self + 2\<rparr>, os'') \<and>
                 fs os'' = fs os' \<and>
                 shell_log os'' =
                   shell_log os' @
                   [export_cmd (node_path_of self node) (py_str (next_fsid self + 1)) ip])"
  proof
    assume m: "ismount os' (node_path_of self node)"
    obtain os'' where 3:
      "setup_node ?self1 os' node = (Inr node, ?self1\<lparr>next_fsid := next_fsid ?self1 + 1\<rparr>, os'')"
      "fs os'' = fs (after_dirs ?self1 os' node)"
      "shell_log os'' =
        shell_log os' @
        (if ismount os' (node_path_of ?self1 node) then []
         else [mount_cmd (overlay_path_of ?self1 node) (conf_root_dir ?self1) (node_path_of ?self1 node)]) @
        [export_cmd (node_path_of ?self1 node) (py_str (next_fsid ?self1)) ip]"
      using setup_node_once[OF ip 1(4) cr] by blast
    have "fs (after_dirs ?self1 os' node) = fs os'" using after_dirs_idem[OF ex] .
    then show "\<exists>os''. setup_node ?self1 os' node = (Inr node, self\<lparr>next_fsid := next_fsid self + 2\<rparr>, os'') \<and>
                 fs os'' = fs os' \<and>
                 shell_log os'' =
                   shell_log os' @
                   [export_cmd (node_path_of self node) (py_str (next_fsid self + 1)) ip]"
      using 3 m by simp
  qed
  show ?thesis
    using ip 1 2 by (auto simp: after_dirs_def)
qed


lemma sample_first_call:
  "setup_node sample_fs sample_os ''0A0B0C0D'' =
     (Inr ''0A0B0C0D'', sample_fs\<lparr>next_fsid := 100001\<rparr>,
      sample_os\<lparr>fs := fs sample_os @ [(''/srv/nodes/0A0B0C0D'', Directory),
                                       (''/srv/overlay/0A0B0C0D'', Directory)],
                mounts := [''/srv/nodes/0A0B0C0D''],
                shell_log :=
                  [''mount -t aufs -o br:/srv/overlay/0A0B0C0D=rw:/srv/root=ro none /srv/nodes/0A0B0C0D'',
                   ''exportfs -o rw,no_root_squash,fsid=100000 10.11.12.13:/srv/nodes/0A0B0C0D'']\<rparr>)"
proof -
  have p: "node_path_of sample_fs ''0A0B0C0D'' = ''/srv/nodes/0A0B0C0D''"
          "overlay_path_of sample_fs ''0A0B0C0D'' = ''/srv/overlay/0A0B0C0D''"
    by (simp_all add: sample_fs_def join_def slash_def)
  have c: "creatable sample_os (node_path_of sample_fs ''0A0B0C0D'')"
          "creatable sample_os (overlay_path_of sample_fs ''0A0B0C0D'')"
    unfolding p by code_simp+
  have ip: "hex2ip ''0A0B0C0D'' = Inr ''10.11.12.13''" by code_simp
  have s: "py_str (next_fsid sample_fs) = ''100000''"
    by (simp add: sample_fs_def py_str_def dec_digits.simps digit_char_def)
  have ad: "after_dirs sample_fs sample_os ''0A0B0C0D'' =
      sample_os\<lparr>fs := fs sample_os @ [(''/srv/nodes/0A0B0C0D'', Directory),
                                       (''/srv/overlay/0A0B0C0D'', Directory)]\<rparr>"
    unfolding after_dirs_def p by (simp add: made_def path_exists_def sample_os_def)
  have w: "working_sh (mount_cmd ''/srv/overlay/0A0B0C0D'' ''/srv/root'' ''/srv/nodes/0A0B0C0D'') =
      (0, [''/srv/nodes/0A0B0C0D''])"
    by (simp add: working_sh_def mount_cmd_def)
  have am: "after_mount sample_fs sample_os ''0A0B0C0D'' =
      sample_os\<lparr>fs := fs sample_os @ [(''/srv/nodes/0A0B0C0D'', Directory),
                                       (''/srv/overlay/0A0B0C0D'', Directory)],
                mounts := [''/srv/nodes/0A0B0C0D''],
                shell_log :=
                  [''mount -t aufs -o br:/srv/overlay/0A0B0C0D=rw:/srv/root=ro none /srv/nodes/0A0B0C0D'']\<rparr>"
    unfolding after_mount_def ad p
    by (simp add: ismount_def isdir_def system_def sample_os_def sample_fs_def w)
       (simp add: mount_cmd_def)
  have e: "working_sh (export_cmd ''/srv/nodes/0A0B0C0D'' ''100000'' ''10.11.12.13'') = (0, [])"
    by (simp add: working_sh_def export_cmd_def)
  show ?thesis
    unfolding setup_node_run[OF c] ip sum.case am p s
    by (simp add: system_def sample_os_def sample_fs_def e) (simp add: export_cmd_def)
qed

text \<open>
  The first provisioning of \<^verbatim>\<open>0A0B0C0D\<close> on the sample host makes both directories and
  issues the mount command and the export command for 10.11.12.13 with fsid 100000; the
  second, on the mounted node, issues only the export command, with fsid 100001.
\<close>

theorem setup_node_provisions_witness:
  "hex_token ''0A0B0C0D'' \<and> wf_os sample_os \<and>
   creatable sample_os ''/srv/nodes/0A0B0C0D'' \<and> creatable sample_os ''/srv/overlay/0A0B0C0D'' \<and>
   setup_node sample_fs sample_os ''0A0B0C0D'' =
     (Inr ''0A0B0C0D'', sample_fs\<lparr>next_fsid := 100001\<rparr>, provisioned_os) \<and>
   ismount provisioned_os ''/srv/nodes/0A0B0C0D'' \<and>
   (\<exists>os''. setup_node (sample_fs\<lparr>next_fsid := 100001\<rparr>) provisioned_os ''0A0B0C0D'' =
             (Inr ''0A0B0C0D'', sample_fs\<lparr>next_fsid := 100002\<rparr>, os'') \<and>
           fs os'' = fs provisioned_os \<and>
           shell_log os'' =
             [''mount -t aufs -o br:/srv/overlay/0A0B0C0D=rw:/srv/root=ro none /srv/nodes/0A0B0C0D'',
              ''exportfs -o rw,no_root_squash,fsid=100000 10.11.12.13:/srv/nodes/0A0B0C0D'',
              ''exportfs -o rw,no_root_squash,fsid=100001 10.11.12.13:/srv/nodes/0A0B0C0D''])"
proof -
  have h: "hex_token ''0A0B0C0D''" by code_simp
  have w: "wf_os sample_os" by (simp add: wf_os_def sample_os_def)
  have p: "node_path_of sample_fs ''0A0B0C0D'' = ''/srv/nodes/0A0B0C0D''"
          "overlay_path_of sample_fs ''0A0B0C0D'' = ''/srv/overlay/0A0B0C0D''"
          "next_fsid sample_fs = 100000"
    by (simp_all add: sample_fs_def join_def slash_def)
  have c: "creatable sample_os ''/srv/nodes/0A0B0C0D''" "creatable sample_os ''/srv/overlay/0A0B0C0D''"
    by code_simp+
  have cp: "creatable sample_os (node_path_of sample_fs ''0A0B0C0D'')"
           "creatable sample_os (overlay_path_of sample_fs ''0A0B0C0D'')"
    using c by (simp_all only: p)
  have first: "setup_node sample_fs sample_os ''0A0B0C0D'' =
      (Inr ''0A0B0C0D'', sample_fs\<lparr>next_fsid := 100001\<rparr>, provisioned_os)"
    using sample_first_call by (simp add: provisioned_os_def sample_os_def)
  have ip: "hex2ip ''0A0B0C0D'' = Inr ''10.11.12.13''" by code_simp
  have m: "ismount provisioned_os ''/srv/nodes/0A0B0C0D''" by code_simp
  have s: "py_str (100000 + 1) = ''100001''"
    by (simp add: py_str_def dec_digits.simps digit_char_def)
  obtain ip' os' where r:
    "hex2ip ''0A0B0C0D'' = Inr ip'"
    "setup_node sample_fs sample_os ''0A0B0C0D'' =
       (Inr ''0A0B0C0D'', sample_fs\<lparr>next_fsid := next_fsid sample_fs + 1\<rparr>, os')"
    "ismount os' (node_path_of sample_fs ''0A0B0C0D'') \<longrightarrow>
       (\<exists>os''. setup_node (sample_fs\<lparr>next_fsid := next_fsid sample_fs + 1\<rparr>) os' ''0A0B0C0D'' =
                 (Inr ''0A0B0C0D'', sample_fs\<lparr>next_fsid := next_fsid sample_fs + 2\<rparr>, os'') \<and>
               fs os'' = fs os' \<and>
               shell_log os'' =
                 shell_log os' @
                 [export_cmd (node_path_of sample_fs ''0A0B0C0D'')
                    (py_str (next_fsid sample_fs + 1)) ip'])"
    using setup_node_provisions[OF h w cp] by blast
  have os': "os' = provisioned_os" using r(2) first by simp
  have ip': "ip' = ''10.11.12.13''" using r(1) ip by simp
  obtain os'' where 2:
    "setup_node (sample_fs\<lparr>next_fsid := next_fsid sample_fs + 1\<rparr>) provisioned_os ''0A0B0C0D'' =
       (Inr ''0A0B0C0D'', sample_fs\<lparr>next_fsid := next_fsid sample_fs + 2\<rparr>, os'')"
    "fs os'' = fs provisioned_os"
    "shell_log os'' =
       shell_log provisioned_os @
       [export_cmd ''/srv/nodes/0A0B0C0D'' (py_str (100000 + 1)) ''10.11.12.13'']"
    using r(3) m unfolding os' ip' p by blast
  have 3: "shell_log os'' =
             [''mount -t aufs -o br:/srv/overlay/0A0B0C0D=rw:/srv/root=ro none /srv/nodes/0A0B0C0D'',
              ''exportfs -o rw,no_root_squash,fsid=100000 10.11.12.13:/srv/nodes/0A0B0C0D'',
              ''exportfs -o rw,no_root_squash,fsid=100001 10.11.12.13:/srv/nodes/0A0B0C0D'']"
    using 2(3) unfolding s by (simp add: provisioned_os_def export_cmd_def)
  have 4: "setup_node (sample_fs\<lparr>next_fsid := 100001\<rparr>) provisioned_os ''0A0B0C0D'' =
       (Inr ''0A0B0C0D'', sample_fs\<lparr>next_fsid := 100002\<rparr>, os'')"
    using 2(1) by (simp add: p)
  show ?thesis
    using h w c first m 4 2(2) 3 by blast
qed

text \<open>
  C5 as stated has every call issue the export command. \<^verbatim>\<open>GGGGGGGG\<close> matches the
  pattern that \<open>read\<close> checks before it calls \<open>setup_node\<close>: the call issues the mount
  command, takes fsid 100000 and raises \<^verbatim>\<open>ValueError\<close> before any export command. Where
  the mount-point directory cannot be created the call raises \<^verbatim>\<open>OSError\<close> and issues no
  command at all.
\<close>

theorem setup_node_counterexample:
  "node_re_match ''GGGGGGGG'' \<and>
   fst (setup_node sample_fs sample_os ''GGGGGGGG'') = Inl ValueError \<and>
   next_fsid (fst (snd (setup_node sample_fs sample_os ''GGGGGGGG''))) = 100001 \<and>
   shell_log (snd (snd (setup_node sample_fs sample_os ''GGGGGGGG''))) =
     [''mount -t aufs -o br:/srv/overlay/GGGGGGGG=rw:/srv/root=ro none /srv/nodes/GGGGGGGG''] \<and>
   hex_token ''0A0B0C0D'' \<and>
   fst (setup_node sample_fs (sample_os\<lparr>denied := [''/srv/nodes'']\<rparr>) ''0A0B0C0D'') =
     Inl (OSError (os_err 13 ''Permission denied'' ''/srv/nodes/0A0B0C0D'')) \<and>
   shell_log (snd (snd (setup_node sample_fs (sample_os\<lparr>denied := [''/srv/nodes'']\<rparr>)
                          ''0A0B0C0D''))) = []"
proof -
  have m: "node_re_match ''GGGGGGGG''" by code_simp
  have p: "node_path_of sample_fs ''GGGGGGGG'' = ''/srv/nodes/GGGGGGGG''"
          "overlay_path_of sample_fs ''GGGGGGGG'' = ''/srv/overlay/GGGGGGGG''"
          "node_path_of sample_fs ''0A0B0C0D'' = ''/srv/nodes/0A0B0C0D''"
    by (simp_all add: sample_fs_def join_def slash_def)
  have c: "creatable sample_os (node_path_of sample_fs ''GGGGGGGG'')"
          "creatable sample_os (overlay_path_of sample_fs ''GGGGGGGG'')"
    unfolding p by code_simp+
  have h: "hex2ip ''GGGGGGGG'' = Inl ValueError" by code_simp
  have w: "wf_os sample_os" by (simp add: wf_os_def sample_os_def)
  have run: "setup_node sample_fs sample_os ''GGGGGGGG'' =
      (Inl ValueError, sample_fs\<lparr>next_fsid := next_fsid sample_fs + 1\<rparr>,
       after_mount sample_fs sample_os ''GGGGGGGG'')"
    unfolding setup_node_run[OF c] h by simp
  have nm: "\<not> ismount sample_os ''/srv/nodes/GGGGGGGG''"
    by (simp add: ismount_def sample_os_def)
  have l: "shell_log (after_mount sample_fs sample_os ''GGGGGGGG'') =
     [''mount -t aufs -o br:/srv/overlay/GGGGGGGG=rw:/srv/root=ro none /srv/nodes/GGGGGGGG'']"
    unfolding after_mount_fields(2)[OF w] p using nm
    by (simp add: sample_os_def sample_fs_def mount_cmd_def)
  have 1: "fst (setup_node sample_fs sample_os ''GGGGGGGG'') = Inl ValueError"
    and 2: "next_fsid (fst (snd (setup_node sample_fs sample_os ''GGGGGGGG''))) = 100001"
    and 3: "shell_log (snd (snd (setup_node sample_fs sample_os ''GGGGGGGG''))) =
     [''mount -t aufs -o br:/srv/overlay/GGGGGGGG=rw:/srv/root=ro none /srv/nodes/GGGGGGGG'']"
    unfolding run using l by (simp_all add: sample_fs_def)
  have t: "hex_token ''0A0B0C0D''" by code_simp
  let ?d = "sample_os\<lparr>denied := [''/srv/nodes'']\<rparr>"
  have e: "ensure_dir (node_path_of sample_fs ''0A0B0C0D'') ?d =
      Inl (os_err 13 ''Permission denied'' ''/srv/nodes/0A0B0C0D'')"
    unfolding p
    by (simp add: ensure_dir_def mkdir_def path_exists_def isdir_def sample_os_def dirname_def
        slash_def os_err_def EACCES_def)
  have d: "setup_node sample_fs ?d ''0A0B0C0D'' =
      (Inl (OSError (os_err 13 ''Permission denied'' ''/srv/nodes/0A0B0C0D'')), sample_fs, ?d)"
    unfolding setup_node_def Let_def e by simp
  have 4: "fst (setup_node sample_fs ?d ''0A0B0C0D'') =
     Inl (OSError (os_err 13 ''Permission denied'' ''/srv/nodes/0A0B0C0D''))"
    and 5: "shell_log (snd (snd (setup_node sample_fs ?d ''0A0B0C0D''))) = []"
    unfolding d by (simp_all add: sample_os_def)
  show ?thesis using m 1 2 3 t 4 5 by simp
qed

section \<open>Reading a node file\<close>



lemma py_slice_nonneg:
  assumes "0 \<le> offset" "0 \<le> len"
  shows "py_slice s offset (offset + len) = take (nat len) (drop (nat offset) s)"
proof (cases "offset < int (length s)")
  case False
  then show ?thesis using assms by (simp add: py_slice_def Let_def min_def)
next
  case True
  show ?thesis
  proof (cases "offset + len \<le> int (length s)")
    case True
    with \<open>offset < int (length s)\<close> assms show ?thesis
      by (simp add: py_slice_def Let_def min_def)
  next
    case False
    then have "length (drop (nat offset) s) \<le> nat len" using assms True by simp
    then have "take (nat len) (drop (nat offset) s) = drop (nat offset) s" by simp
    moreover have "length (drop (nat offset) s) \<le> nat (int (length s) - offset)"
      using assms True by simp
    then have "take (nat (int (length s) - offset)) (drop (nat offset) s) = drop (nat offset) s"
      by simp
    ultimately show ?thesis
      using False True assms by (simp add: py_slice_def Let_def min_def)
  qed
qed

lemma py_slice_take8:
  assumes "8 \<le> length s" "0 \<le> i" "i \<le> j" "j \<le> 8"
  shows "py_slice s i j = py_slice (take 8 s) i j"
proof -
  have "take (nat (j - i)) (drop (nat i) (take 8 s)) = take (nat (j - i)) (drop (nat i) s)"
    using assms by (simp add: drop_take min_def)
  then show ?thesis
    using assms by (simp add: py_slice_def Let_def min_def)
qed

lemma hex2ip_take8: "8 \<le> length s \<Longrightarrow> hex2ip s = hex2ip (take 8 s)"
  using py_slice_take8[of s 0 2] py_slice_take8[of s 2 4] py_slice_take8[of s 4 6]
    py_slice_take8[of s 6 8]
  by (simp add: hex2ip_def)

lemma guarded_error: "(if c then Inl ValueError else Inr x) = Inl e \<Longrightarrow> e = ValueError"
  by (cases c) auto

lemma py_int_error: "py_int b s = Inl e \<Longrightarrow> e = ValueError"
  unfolding py_int_def Let_def by (rule guarded_error)

lemma map_exn_error:
  "(\<And>x e. f x = Inl e \<Longrightarrow> e = ValueError) \<Longrightarrow> map_exn f xs = Inl e \<Longrightarrow> e = ValueError"
  by (induction xs arbitrary: e) (auto split: sum.splits)

lemma map_py_int_error: "map_exn (py_int b) xs = Inl e \<Longrightarrow> e = ValueError"
  by (rule map_exn_error[of "py_int b"]) (rule py_int_error)

lemma hex2ip_error: "hex2ip s = Inl e \<Longrightarrow> e = ValueError"
  unfolding hex2ip_def using map_py_int_error[of 16]
  by (auto split: sum.splits simp del: map_exn.simps)

lemma node_re_match_length: "node_re_match s \<Longrightarrow> 8 \<le> length s"
  by (simp add: node_re_match_def min_def split: if_splits)

lemma hex_name_decodes:
  assumes "node_re_match node" "list_all upper_hex (take 8 node)"
  shows "\<exists>ip. hex2ip node = Inr ip"
proof -
  have "hex_token (take 8 node)" using assms by (simp add: hex_token_def node_re_match_def)
  then show ?thesis
    using hex_token_decodes hex2ip_take8[OF node_re_match_length[OF assms(1)]] by simp
qed

lemma get_pxe_data_fsid: "get_pxe_data (self\<lparr>next_fsid := n\<rparr>) node = get_pxe_data self node"
  by (simp add: get_pxe_data_def)

lemma read_unmatched:
  "\<not> node_re_match (basename path) \<Longrightarrow> read self os path len offset = (Inr [], self, os)"
  by (simp add: read_def)

lemma read_run:
  assumes "node_re_match (basename path)"
    and "creatable os (node_path_of self (basename path))"
    and "creatable os (overlay_path_of self (basename path))"
  shows "fst (read self os path len offset) =
     (case hex2ip (basename path) of
        Inl e \<Rightarrow> Inl ValueError
      | Inr ip \<Rightarrow> Inr (py_slice (get_pxe_data self (basename path)) offset (offset + len)))"
proof (cases "hex2ip (basename path)")
  case (Inl e)
  then have "e = ValueError" by (rule hex2ip_error)
  then show ?thesis
    using assms(1) setup_node_run[OF assms(2,3)] Inl by (simp add: read_def Let_def)
next
  case (Inr ip)
  then show ?thesis
    using assms(1) setup_node_run[OF assms(2,3)]
    by (simp add: read_def get_pxe_data_fsid Let_def)
qed


lemma rendering_window:
  assumes "occurrences marker (pxe_template self) = 1"
    and "pxe_template_length self = int (length (pxe_template self)) - 6 + 8"
    and "length node = 8" "0 \<le> len"
  shows "pxe_template_length self \<le> offset \<Longrightarrow>
           take (nat len) (drop (nat offset) (get_pxe_data self node)) = []"
    and "take (nat len) (get_pxe_data self node) =
           take (nat (min len (pxe_template_length self))) (get_pxe_data self node)"
proof -
  have l: "int (length (get_pxe_data self node)) = pxe_template_length self"
    using render_length[of self node] assms(1,2,3) by simp
  show "pxe_template_length self \<le> offset \<Longrightarrow>
           take (nat len) (drop (nat offset) (get_pxe_data self node)) = []"
    using l by simp
  show "take (nat len) (get_pxe_data self node) =
           take (nat (min len (pxe_template_length self))) (get_pxe_data self node)"
  proof (cases "len \<le> pxe_template_length self")
    case True
    then show ?thesis by (simp add: min_def)
  next
    case False
    then have "length (get_pxe_data self node) \<le> nat len"
      "length (get_pxe_data self node) \<le> nat (pxe_template_length self)"
      using l by simp_all
    then show ?thesis using False by (simp add: min_def)
  qed
qed

text \<open>
  C1, as the code has it. For offset and length not negative: when the base name of the
  path matches the identifier pattern, its first eight characters are upper-case
  hexadecimal digits and both directories of the node exist or can be created, \<open>read\<close>
  returns the window from \<open>offset\<close> of \<open>len\<close> bytes of the rendering of the base name;
  when moreover the template holds the marker once, the stored rendered length is the one
  \<open>load_template\<close> computes and the base name has eight characters, an offset at or past
  the rendered length gives the empty string and a read at offset 0 gives the first
  min(len, rendered length) bytes. When the base name does not match, \<open>read\<close> returns the
  empty string and changes nothing.
\<close>

theorem read_returns_window:
  assumes "0 \<le> offset" "0 \<le> len"
  shows
   "(node_re_match (basename path) \<and> list_all upper_hex (take 8 (basename path)) \<and>
     creatable os (node_path_of self (basename path)) \<and>
     creatable os (overlay_path_of self (basename path)) \<longrightarrow>
       fst (read self os path len offset) =
         Inr (take (nat len) (drop (nat offset) (get_pxe_data self (basename path)))) \<and>
       (occurrences marker (pxe_template self) = 1 \<and>
        pxe_template_length self = int (length (pxe_template self)) - 6 + 8 \<and>
        length (basename path) = 8 \<longrightarrow>
          (pxe_template_length self \<le> offset \<longrightarrow> fst (read self os path len offset) = Inr []) \<and>
          fst (read self os path len 0) =
            Inr (take (nat (min len (pxe_template_length self)))
                   (get_pxe_data self (basename path))))) \<and>
    (\<not> node_re_match (basename path) \<longrightarrow> read self os path len offset = (Inr [], self, os))"
proof (intro conjI impI)
  assume "\<not> node_re_match (basename path)"
  then show "read self os path len offset = (Inr [], self, os)" by (rule read_unmatched)
next
  assume a: "node_re_match (basename path) \<and> list_all upper_hex (take 8 (basename path)) \<and>
     creatable os (node_path_of self (basename path)) \<and>
     creatable os (overlay_path_of self (basename path))"
  then obtain ip where ip: "hex2ip (basename path) = Inr ip"
    using hex_name_decodes by blast
  have r: "\<And>off. 0 \<le> off \<Longrightarrow> fst (read self os path len off) =
      Inr (take (nat len) (drop (nat off) (get_pxe_data self (basename path))))"
    using a read_run[of path os self len] ip assms(2) by (simp add: py_slice_nonneg)
  show w: "fst (read self os path len offset) =
         Inr (take (nat len) (drop (nat offset) (get_pxe_data self (basename path))))"
    using r[OF assms(1)] .
  assume b: "occurrences marker (pxe_template self) = 1 \<and>
        pxe_template_length self = int (length (pxe_template self)) - 6 + 8 \<and>
        length (basename path) = 8"
  note rw = rendering_window[of self "basename path" len, OF _ _ _ assms(2)]
  show "fst (read self os path len 0) =
            Inr (take (nat (min len (pxe_template_length self)))
                   (get_pxe_data self (basename path)))"
    using r[of 0] rw(2) b by simp
  assume "pxe_template_length self \<le> offset"
  then show "fst (read self os path len offset) = Inr []"
    using w rw(1)[of offset] b by simp
qed


lemma upper_hex_code:
  "upper_hex c = ((48 \<le> (of_char c :: nat) \<and> (of_char c :: nat) \<le> 57) \<or>
                  (65 \<le> (of_char c :: nat) \<and> (of_char c :: nat) \<le> 70))"
proof -
  have "upper_hex c = (\<exists>d \<in> set ''0123456789ABCDEF''. (of_char c :: nat) = of_char d)"
    by (auto simp: upper_hex_def)
  also have "\<dots> = ((of_char c :: nat) \<in> {48, 49, 50, 51, 52, 53, 54, 55, 56, 57, 65, 66, 67, 68, 69, 70})"
    by (simp del: of_char_eq_iff)
  also have "\<dots> = ((48 \<le> (of_char c :: nat) \<and> (of_char c :: nat) \<le> 57) \<or>
                  (65 \<le> (of_char c :: nat) \<and> (of_char c :: nat) \<le> 70))"
    by (simp, arith)
  finally show ?thesis .
qed

lemma node_char_facts:
  assumes "node_char c"
  shows "\<not> isspace c" "c \<noteq> CHR ''-''" "c \<noteq> CHR ''+''" "(digit_value c < 16) = upper_hex c"
proof -
  define n where "n = (of_char c :: nat)"
  have r: "(65 \<le> n \<and> n \<le> 90) \<or> (48 \<le> n \<and> n \<le> 57)"
    using assms by (simp add: node_char_def Let_def n_def)
  show "\<not> isspace c" using r by (auto simp: isspace_def Let_def n_def[symmetric])
  have "n \<noteq> 45" "n \<noteq> 43" using r by auto
  then show "c \<noteq> CHR ''-''" "c \<noteq> CHR ''+''" by (auto simp: n_def)
  show "(digit_value c < 16) = upper_hex c"
    unfolding upper_hex_code digit_value_def Let_def n_def[symmetric] using r by auto
qed

lemma py_int_pair_hex:
  assumes "node_char c" "node_char d" "py_int 16 [c, d] = Inr n"
  shows "upper_hex c \<and> upper_hex d"
proof (rule ccontr)
  assume n: "\<not> (upper_hex c \<and> upper_hex d)"
  note fc = node_char_facts[OF assms(1)] and fd = node_char_facts[OF assms(2)]
  have sk: "skip_0x [c, d] = [c, d]" by (simp add: skip_0x_def)
  have "py_int 16 [c, d] = Inl ValueError"
  proof (cases "upper_hex c")
    case False
    then show ?thesis
      using fc by (simp add: py_int_def Let_def sk)
  next
    case True
    then have "\<not> upper_hex d" using n by simp
    then show ?thesis
      using True fc fd by (simp add: py_int_def Let_def sk)
  qed
  then show False using assms(3) by simp
qed

lemma non_hex_raises:
  assumes "length node = 8" "list_all node_char node" "\<not> list_all upper_hex node"
  shows "hex2ip node = Inl ValueError"
proof (cases "hex2ip node")
  case (Inl e)
  then show ?thesis using hex2ip_error by simp
next
  case (Inr ip)
  obtain a b c d e f g h where s: "node = [a, b, c, d, e, f, g, h]"
    using assms(1) length8 by blast
  have nc: "node_char a" "node_char b" "node_char c" "node_char d"
           "node_char e" "node_char f" "node_char g" "node_char h"
    using assms(2) s by simp_all
  obtain n1 n2 n3 n4 where p: "py_int 16 [a, b] = Inr n1" "py_int 16 [c, d] = Inr n2"
      "py_int 16 [e, f] = Inr n3" "py_int 16 [g, h] = Inr n4"
    using Inr unfolding s hex2ip_def slices8 by (auto split: sum.splits)
  have "list_all upper_hex node"
    using py_int_pair_hex[OF nc(1) nc(2) p(1)] py_int_pair_hex[OF nc(3) nc(4) p(2)]
      py_int_pair_hex[OF nc(5) nc(6) p(3)] py_int_pair_hex[OF nc(7) nc(8) p(4)]
    by (simp add: s)
  then show ?thesis using assms(3) by simp
qed


lemma sample_paths:
  "basename ''/0A0B0C0D'' = ''0A0B0C0D''"
  "node_path_of sample_fs ''0A0B0C0D'' = ''/srv/nodes/0A0B0C0D''"
  "overlay_path_of sample_fs ''0A0B0C0D'' = ''/srv/overlay/0A0B0C0D''"
  "basename ''/GGGGGGGG'' = ''GGGGGGGG''"
  "node_path_of sample_fs ''GGGGGGGG'' = ''/srv/nodes/GGGGGGGG''"
  "overlay_path_of sample_fs ''GGGGGGGG'' = ''/srv/overlay/GGGGGGGG''"
  by (simp_all add: basename_def slash_def sample_fs_def join_def)

lemma sample_creatable:
  "creatable sample_os ''/srv/nodes/0A0B0C0D''" "creatable sample_os ''/srv/overlay/0A0B0C0D''"
  "creatable sample_os ''/srv/nodes/GGGGGGGG''" "creatable sample_os ''/srv/overlay/GGGGGGGG''"
  by code_simp+

lemma creatable_sh: "creatable (os\<lparr>sh := f\<rparr>) p = creatable os p"
  by (simp add: creatable_def path_exists_def isdir_def)

lemma sample_rendering:
  "get_pxe_data sample_fs ''0A0B0C0D'' = ''append nfsroot=/srv/nodes/0A0B0C0D ro''"
  by code_simp

text \<open>
  Reads of \<^verbatim>\<open>/0A0B0C0D\<close> on the sample host, at offsets 0, 7 and 37 (the rendered length),
  and a read of \<^verbatim>\<open>/nope\<close>.
\<close>

theorem read_returns_window_witness:
  "fst (read sample_fs sample_os ''/0A0B0C0D'' 100 0) =
     Inr ''append nfsroot=/srv/nodes/0A0B0C0D ro'' \<and>
   fst (read sample_fs sample_os ''/0A0B0C0D'' 10 7) = Inr ''nfsroot=/s'' \<and>
   fst (read sample_fs sample_os ''/0A0B0C0D'' 100 37) = Inr [] \<and>
   read sample_fs sample_os ''/nope'' 100 0 = (Inr [], sample_fs, sample_os)"
proof -
  have m: "node_re_match (basename ''/0A0B0C0D'')"
          "list_all upper_hex (take 8 (basename ''/0A0B0C0D''))"
          "length (basename ''/0A0B0C0D'') = 8"
          "\<not> node_re_match (basename ''/nope'')"
    by code_simp+
  have c: "creatable sample_os (node_path_of sample_fs (basename ''/0A0B0C0D''))"
          "creatable sample_os (overlay_path_of sample_fs (basename ''/0A0B0C0D''))"
    using sample_creatable by (simp_all only: sample_paths)
  have t: "occurrences marker (pxe_template sample_fs) = 1"
    by code_simp
  have l: "pxe_template_length sample_fs = int (length (pxe_template sample_fs)) - 6 + 8"
          "pxe_template_length sample_fs = 37"
    by (simp_all add: sample_fs_def)
  have r: "get_pxe_data sample_fs (basename ''/0A0B0C0D'') =
             ''append nfsroot=/srv/nodes/0A0B0C0D ro''"
    using sample_rendering by (simp only: sample_paths)
  have 1: "fst (read sample_fs sample_os ''/0A0B0C0D'' 100 0) =
     Inr ''append nfsroot=/srv/nodes/0A0B0C0D ro''"
    using read_returns_window[of 0 100 "''/0A0B0C0D''" sample_os sample_fs] m c
    unfolding r by simp
  have 2: "fst (read sample_fs sample_os ''/0A0B0C0D'' 10 7) = Inr ''nfsroot=/s''"
    using read_returns_window[of 7 10 "''/0A0B0C0D''" sample_os sample_fs] m c
    unfolding r by simp
  have z: "(0::int) \<le> 37" "(0::int) \<le> 100" by simp_all
  have le: "pxe_template_length sample_fs \<le> 37" using l(2) by simp
  have 3: "fst (read sample_fs sample_os ''/0A0B0C0D'' 100 37) = Inr []"
    using read_returns_window[OF z, of "''/0A0B0C0D''" sample_os sample_fs] m c t l(1) le
    by blast
  have 4: "read sample_fs sample_os ''/nope'' 100 0 = (Inr [], sample_fs, sample_os)"
    using read_returns_window[of 0 100 "''/nope''" sample_os sample_fs] m(4) by simp
  show ?thesis using 1 2 3 4 by simp
qed

text \<open>
  C1 as stated covers every base name that matches the pattern, and takes the rendered
  length as the end of every rendering. \<^verbatim>\<open>/GGGGGGGG\<close> matches and the read raises
  \<^verbatim>\<open>ValueError\<close>; with the accepted template \<^verbatim>\<open><NODE> <NODE>\<close> a read at the rendered
  length 15 still returns two bytes.
\<close>

theorem read_returns_window_counterexample:
  "node_re_match (basename ''/GGGGGGGG'') \<and>
   fst (read sample_fs sample_os ''/GGGGGGGG'' 100 0) = Inl ValueError \<and>
   load_template sample_fs ''<NODE> <NODE>'' =
     Inr (sample_fs\<lparr>pxe_template := ''<NODE> <NODE>'', pxe_template_length := 15\<rparr>) \<and>
   fst (read (sample_fs\<lparr>pxe_template := ''<NODE> <NODE>'', pxe_template_length := 15\<rparr>)
          sample_os ''/0A0B0C0D'' 100 15) = Inr ''0D''"
proof -
  have m: "node_re_match (basename ''/GGGGGGGG'')" by code_simp
  have c: "creatable sample_os (node_path_of sample_fs (basename ''/GGGGGGGG''))"
          "creatable sample_os (overlay_path_of sample_fs (basename ''/GGGGGGGG''))"
    using sample_creatable by (simp_all only: sample_paths)
  have h: "hex2ip (basename ''/GGGGGGGG'') = Inl ValueError" by code_simp
  have 1: "fst (read sample_fs sample_os ''/GGGGGGGG'' 100 0) = Inl ValueError"
    using read_run[OF m c, of 100 0] h by simp
  let ?s2 = "sample_fs\<lparr>pxe_template := ''<NODE> <NODE>'', pxe_template_length := 15\<rparr>"
  have 2: "load_template sample_fs ''<NODE> <NODE>'' = Inr ?s2"
    by (simp add: load_template_def str_find_def marker_def)
  have m2: "node_re_match (basename ''/0A0B0C0D'')" by code_simp
  have p2: "node_path_of ?s2 (basename ''/0A0B0C0D'') = ''/srv/nodes/0A0B0C0D''"
           "overlay_path_of ?s2 (basename ''/0A0B0C0D'') = ''/srv/overlay/0A0B0C0D''"
    by (simp_all add: basename_def slash_def sample_fs_def join_def)
  have c2: "creatable sample_os (node_path_of ?s2 (basename ''/0A0B0C0D''))"
           "creatable sample_os (overlay_path_of ?s2 (basename ''/0A0B0C0D''))"
    using sample_creatable unfolding p2 by simp_all
  have h2: "hex2ip (basename ''/0A0B0C0D'') = Inr ''10.11.12.13''" by code_simp
  have r2: "get_pxe_data ?s2 (basename ''/0A0B0C0D'') = ''0A0B0C0D 0A0B0C0D''"
    by (simp add: get_pxe_data_def str_replace_def marker_def basename_def slash_def)
  have 3: "fst (read ?s2 sample_os ''/0A0B0C0D'' 100 15) = Inr ''0D''"
    using read_run[OF m2 c2, of 100 15] h2 unfolding r2 by (simp add: py_slice_def)
  show ?thesis using m 1 2 3 by simp
qed


lemma setup_node_sh:
  "fst (setup_node self (os\<lparr>sh := f\<rparr>) node) = fst (setup_node self os node) \<and>
   fst (snd (setup_node self (os\<lparr>sh := f\<rparr>) node)) = fst (snd (setup_node self os node))"
  by (simp add: setup_node_def ensure_dir_sh Let_def split: sum.splits)

lemma read_fst:
  "fst (read self os path len offset) =
     (if node_re_match (basename path) then
        (case fst (setup_node self os (basename path)) of
           Inl e \<Rightarrow> (case e of OSError err \<Rightarrow> Inr (str_oserror err) | _ \<Rightarrow> Inl e)
         | Inr _ \<Rightarrow>
             Inr (py_slice (get_pxe_data (fst (snd (setup_node self os (basename path))))
                    (basename path)) offset (offset + len)))
      else Inr [])"
  by (simp add: read_def Let_def split: prod.splits sum.splits exn.splits)

lemma read_sh:
  "fst (read self (os\<lparr>sh := f\<rparr>) path len offset) = fst (read self os path len offset)"
proof -
  have a: "fst (setup_node self (os\<lparr>sh := f\<rparr>) (basename path)) =
             fst (setup_node self os (basename path))"
    and b: "fst (snd (setup_node self (os\<lparr>sh := f\<rparr>) (basename path))) =
             fst (snd (setup_node self os (basename path)))"
    using setup_node_sh by blast+
  show ?thesis unfolding read_fst a b ..
qed

lemma setup_node_hex:
  assumes "hex2ip node = Inr ip"
  shows "fst (setup_node self os node) = Inr node \<or>
         (\<exists>err. fst (setup_node self os node) = Inl (OSError err))"
  using assms by (auto simp: setup_node_def Let_def split: sum.splits)

lemma read_total_hex:
  assumes "node_re_match (basename path)" "list_all upper_hex (take 8 (basename path))"
  shows "\<exists>r. fst (read self os path len offset) = Inr r"
proof -
  obtain ip where "hex2ip (basename path) = Inr ip"
    using hex_name_decodes[OF assms] by blast
  then show ?thesis
    using setup_node_hex[where node = "basename path" and ip = ip and self = self and os = os]
      assms(1)
    by (auto simp: read_fst)
qed

lemma read_mkdir_fails:
  assumes "node_re_match (basename path)"
  shows "ensure_dir (node_path_of self (basename path)) os = Inl e \<Longrightarrow>
           fst (read self os path len offset) = Inr (str_oserror e)"
    and "ensure_dir (node_path_of self (basename path)) os = Inr os_mid \<Longrightarrow>
         ensure_dir (overlay_path_of self (basename path)) os_mid = Inl e \<Longrightarrow>
           fst (read self os path len offset) = Inr (str_oserror e)"
  using assms by (simp_all add: read_fst setup_node_def Let_def)

text \<open>
  C9, as the code has it. For every path, what \<open>read\<close> returns does not depend on what
  the host does with the mount and export commands, exit status included. When the base
  name matches the pattern and its first eight characters are hexadecimal digits, the read
  returns whatever the commands did, and where both directories exist or can be created it
  returns the window of the rendering. When the base name matches and creating the
  mount-point directory or the overlay directory raises \<^verbatim>\<open>OSError\<close>, the text of that
  error is returned as data.
\<close>

theorem read_ignores_command_status:
  "fst (read self (os\<lparr>sh := f\<rparr>) path len offset) =
     fst (read self (os\<lparr>sh := g\<rparr>) path len offset) \<and>
   (node_re_match (basename path) \<and> list_all upper_hex (take 8 (basename path)) \<longrightarrow>
      (\<exists>r. fst (read self (os\<lparr>sh := f\<rparr>) path len offset) = Inr r)) \<and>
   (node_re_match (basename path) \<and> list_all upper_hex (take 8 (basename path)) \<and>
    creatable os (node_path_of self (basename path)) \<and>
    creatable os (overlay_path_of self (basename path)) \<longrightarrow>
      fst (read self (os\<lparr>sh := f\<rparr>) path len offset) =
        Inr (py_slice (get_pxe_data self (basename path)) offset (offset + len))) \<and>
   (node_re_match (basename path) \<and>
    ensure_dir (node_path_of self (basename path)) os = Inl e \<longrightarrow>
      fst (read self (os\<lparr>sh := f\<rparr>) path len offset) = Inr (str_oserror e)) \<and>
   (node_re_match (basename path) \<and>
    ensure_dir (node_path_of self (basename path)) os = Inr os_mid \<and>
    ensure_dir (overlay_path_of self (basename path)) os_mid = Inl e \<longrightarrow>
      fst (read self (os\<lparr>sh := f\<rparr>) path len offset) = Inr (str_oserror e))"
proof (intro conjI impI)
  show "fst (read self (os\<lparr>sh := f\<rparr>) path len offset) =
     fst (read self (os\<lparr>sh := g\<rparr>) path len offset)"
    by (simp add: read_sh)
next
  assume "node_re_match (basename path) \<and> list_all upper_hex (take 8 (basename path))"
  then show "\<exists>r. fst (read self (os\<lparr>sh := f\<rparr>) path len offset) = Inr r"
    using read_total_hex by blast
next
  assume a: "node_re_match (basename path) \<and> list_all upper_hex (take 8 (basename path)) \<and>
    creatable os (node_path_of self (basename path)) \<and>
    creatable os (overlay_path_of self (basename path))"
  then obtain ip where ip: "hex2ip (basename path) = Inr ip"
    using hex_name_decodes by blast
  have "fst (read self os path len offset) =
      Inr (py_slice (get_pxe_data self (basename path)) offset (offset + len))"
    using a read_run[where path = path and os = os and self = self and len = len and offset = offset] ip by simp
  then show "fst (read self (os\<lparr>sh := f\<rparr>) path len offset) =
        Inr (py_slice (get_pxe_data self (basename path)) offset (offset + len))"
    by (simp add: read_sh)
next
  assume "node_re_match (basename path) \<and>
    ensure_dir (node_path_of self (basename path)) os = Inl e"
  then show "fst (read self (os\<lparr>sh := f\<rparr>) path len offset) = Inr (str_oserror e)"
    using read_mkdir_fails(1) by (simp add: read_sh)
next
  assume "node_re_match (basename path) \<and>
    ensure_dir (node_path_of self (basename path)) os = Inr os_mid \<and>
    ensure_dir (overlay_path_of self (basename path)) os_mid = Inl e"
  then show "fst (read self (os\<lparr>sh := f\<rparr>) path len offset) = Inr (str_oserror e)"
    using read_mkdir_fails(2) by (simp add: read_sh)
qed


lemma read_state:
  "node_re_match (basename path) \<Longrightarrow>
     snd (read self os path len offset) = snd (setup_node self os (basename path))"
  by (simp add: read_def Let_def split: prod.splits sum.splits exn.splits)

lemma sample_match:
  "node_re_match (basename ''/0A0B0C0D'')" "list_all upper_hex (take 8 (basename ''/0A0B0C0D''))"
  by code_simp+

text \<open>
  On a host where every command fails the read returns the rendering, as on the host
  where they succeed; where creating a directory is denied it returns the text of the
  \<^verbatim>\<open>OSError\<close>.
\<close>

theorem read_ignores_command_status_witness:
  "fst (read sample_fs (sample_os\<lparr>sh := failing_sh\<rparr>) ''/0A0B0C0D'' 100 0) =
     Inr ''append nfsroot=/srv/nodes/0A0B0C0D ro'' \<and>
   fst (read sample_fs (sample_os\<lparr>sh := working_sh\<rparr>) ''/0A0B0C0D'' 100 0) =
     Inr ''append nfsroot=/srv/nodes/0A0B0C0D ro'' \<and>
   fst (read sample_fs (sample_os\<lparr>denied := [''/srv/nodes''], sh := failing_sh\<rparr>)
          ''/0A0B0C0D'' 100 0) =
     Inr (str_oserror (os_err 13 ''Permission denied'' ''/srv/nodes/0A0B0C0D'')) \<and>
   fst (read sample_fs (sample_os\<lparr>denied := [''/srv/overlay''], sh := failing_sh\<rparr>)
          ''/0A0B0C0D'' 100 0) =
     Inr (str_oserror (os_err 13 ''Permission denied'' ''/srv/overlay/0A0B0C0D'')) \<and>
   take 28 (str_oserror (os_err 13 ''Permission denied'' ''/srv/nodes/0A0B0C0D'')) =
     ''[Errno 13] Permission denied''"
proof -
  have c: "creatable sample_os (node_path_of sample_fs (basename ''/0A0B0C0D''))"
          "creatable sample_os (overlay_path_of sample_fs (basename ''/0A0B0C0D''))"
    using sample_creatable by (simp_all only: sample_paths)
  have r: "py_slice (get_pxe_data sample_fs (basename ''/0A0B0C0D'')) 0 (0 + 100) =
             ''append nfsroot=/srv/nodes/0A0B0C0D ro''"
    unfolding sample_paths sample_rendering by (simp add: py_slice_def)
  have 1: "fst (read sample_fs (sample_os\<lparr>sh := failing_sh\<rparr>) ''/0A0B0C0D'' 100 0) =
     Inr ''append nfsroot=/srv/nodes/0A0B0C0D ro''"
    using read_ignores_command_status[where self = sample_fs and os = sample_os
        and f = failing_sh and path = "''/0A0B0C0D''" and len = 100 and offset = 0]
      sample_match c unfolding r by blast
  have 2: "fst (read sample_fs (sample_os\<lparr>sh := working_sh\<rparr>) ''/0A0B0C0D'' 100 0) =
     Inr ''append nfsroot=/srv/nodes/0A0B0C0D ro''"
    using read_ignores_command_status[where self = sample_fs and os = sample_os
        and f = failing_sh and g = working_sh and path = "''/0A0B0C0D''" and len = 100
        and offset = 0] 1
    by simp
  let ?d1 = "sample_os\<lparr>denied := [''/srv/nodes'']\<rparr>"
  have e1: "ensure_dir (node_path_of sample_fs (basename ''/0A0B0C0D'')) ?d1 =
      Inl (os_err 13 ''Permission denied'' ''/srv/nodes/0A0B0C0D'')"
    unfolding sample_paths
    by (simp add: ensure_dir_def mkdir_def path_exists_def isdir_def sample_os_def dirname_def
        slash_def os_err_def EACCES_def)
  have 3: "fst (read sample_fs (?d1\<lparr>sh := failing_sh\<rparr>) ''/0A0B0C0D'' 100 0) =
     Inr (str_oserror (os_err 13 ''Permission denied'' ''/srv/nodes/0A0B0C0D''))"
    using read_ignores_command_status[where self = sample_fs and os = ?d1
        and f = failing_sh and path = "''/0A0B0C0D''" and len = 100 and offset = 0
        and e = "os_err 13 ''Permission denied'' ''/srv/nodes/0A0B0C0D''"]
      sample_match(1) e1 by blast
  let ?d2 = "sample_os\<lparr>denied := [''/srv/overlay'']\<rparr>"
  let ?d3 = "?d2\<lparr>fs := fs ?d2 @ [(''/srv/nodes/0A0B0C0D'', Directory)]\<rparr>"
  have e2: "ensure_dir (node_path_of sample_fs (basename ''/0A0B0C0D'')) ?d2 = Inr ?d3"
    unfolding sample_paths
    by (simp add: ensure_dir_def mkdir_def path_exists_def isdir_def sample_os_def dirname_def
        slash_def)
  have e3: "ensure_dir (overlay_path_of sample_fs (basename ''/0A0B0C0D'')) ?d3 =
      Inl (os_err 13 ''Permission denied'' ''/srv/overlay/0A0B0C0D'')"
    unfolding sample_paths
    by (simp add: ensure_dir_def mkdir_def path_exists_def isdir_def sample_os_def dirname_def
        slash_def os_err_def EACCES_def)
  have 4: "fst (read sample_fs (?d2\<lparr>sh := failing_sh\<rparr>) ''/0A0B0C0D'' 100 0) =
     Inr (str_oserror (os_err 13 ''Permission denied'' ''/srv/overlay/0A0B0C0D''))"
    using read_ignores_command_status[where self = sample_fs and os = ?d2
        and f = failing_sh and path = "''/0A0B0C0D''" and len = 100 and offset = 0
        and os_mid = ?d3
        and e = "os_err 13 ''Permission denied'' ''/srv/overlay/0A0B0C0D''"]
      sample_match(1) e2 e3 by blast
  have 5: "take 28 (str_oserror (os_err 13 ''Permission denied'' ''/srv/nodes/0A0B0C0D'')) =
     ''[Errno 13] Permission denied''"
    by (simp add: str_oserror_def os_err_def py_str_def dec_digits.simps digit_char_def)
  show ?thesis using 1 2 3 4 5 by simp
qed

text \<open>
  C9 as stated has the read return diagnostic text when the mount or the export
  invocation fails. On the host where both commands run and exit with status 256 the read
  returns the rendered template, the same bytes as on the host where they succeed.
\<close>

theorem read_diagnostic_counterexample:
  "sh (sample_os\<lparr>sh := failing_sh\<rparr>)
     (mount_cmd ''/srv/overlay/0A0B0C0D'' ''/srv/root'' ''/srv/nodes/0A0B0C0D'') = (256, []) \<and>
   sh (sample_os\<lparr>sh := failing_sh\<rparr>)
     (export_cmd ''/srv/nodes/0A0B0C0D'' ''100000'' ''10.11.12.13'') = (256, []) \<and>
   shell_log (snd (snd (read sample_fs (sample_os\<lparr>sh := failing_sh\<rparr>) ''/0A0B0C0D'' 100 0))) =
     [mount_cmd ''/srv/overlay/0A0B0C0D'' ''/srv/root'' ''/srv/nodes/0A0B0C0D'',
      export_cmd ''/srv/nodes/0A0B0C0D'' ''100000'' ''10.11.12.13''] \<and>
   fst (read sample_fs (sample_os\<lparr>sh := failing_sh\<rparr>) ''/0A0B0C0D'' 100 0) =
     Inr ''append nfsroot=/srv/nodes/0A0B0C0D ro'' \<and>
   fst (read sample_fs sample_os ''/0A0B0C0D'' 100 0) =
     Inr ''append nfsroot=/srv/nodes/0A0B0C0D ro''"
proof -
  let ?os = "sample_os\<lparr>sh := failing_sh\<rparr>"
  have c: "creatable ?os (node_path_of sample_fs (basename ''/0A0B0C0D''))"
          "creatable ?os (overlay_path_of sample_fs (basename ''/0A0B0C0D''))"
    using sample_creatable by (simp_all only: sample_paths creatable_sh)
  have w: "wf_os ?os" by (simp add: wf_os_def sample_os_def)
  have ip: "hex2ip (basename ''/0A0B0C0D'') = Inr ''10.11.12.13''" by code_simp
  have s: "py_str (next_fsid sample_fs) = ''100000''"
    by (simp add: sample_fs_def py_str_def dec_digits.simps digit_char_def)
  have nm: "\<not> ismount ?os (node_path_of sample_fs (basename ''/0A0B0C0D''))"
    by (simp add: ismount_def sample_os_def)
  obtain os' where o:
    "setup_node sample_fs ?os (basename ''/0A0B0C0D'') =
       (Inr (basename ''/0A0B0C0D''), sample_fs\<lparr>next_fsid := next_fsid sample_fs + 1\<rparr>, os')"
    "shell_log os' =
        shell_log ?os @
        (if ismount ?os (node_path_of sample_fs (basename ''/0A0B0C0D'')) then []
         else [mount_cmd (overlay_path_of sample_fs (basename ''/0A0B0C0D''))
                 (conf_root_dir sample_fs) (node_path_of sample_fs (basename ''/0A0B0C0D''))]) @
        [export_cmd (node_path_of sample_fs (basename ''/0A0B0C0D''))
           (py_str (next_fsid sample_fs)) ''10.11.12.13'']"
    using setup_node_once[OF ip w c] by blast
  have "shell_log os' =
     [mount_cmd ''/srv/overlay/0A0B0C0D'' ''/srv/root'' ''/srv/nodes/0A0B0C0D'',
      export_cmd ''/srv/nodes/0A0B0C0D'' ''100000'' ''10.11.12.13'']"
    using o(2) nm unfolding s sample_paths by (simp add: sample_os_def sample_fs_def)
  then have 3: "shell_log (snd (snd (read sample_fs ?os ''/0A0B0C0D'' 100 0))) =
     [mount_cmd ''/srv/overlay/0A0B0C0D'' ''/srv/root'' ''/srv/nodes/0A0B0C0D'',
      export_cmd ''/srv/nodes/0A0B0C0D'' ''100000'' ''10.11.12.13'']"
    using read_state[OF sample_match(1), of sample_fs ?os 100 0] o(1) by simp
  have r: "py_slice (get_pxe_data sample_fs (basename ''/0A0B0C0D'')) 0 (0 + 100) =
             ''append nfsroot=/srv/nodes/0A0B0C0D ro''"
    unfolding sample_paths sample_rendering by (simp add: py_slice_def)
  have c0: "creatable sample_os (node_path_of sample_fs (basename ''/0A0B0C0D''))"
           "creatable sample_os (overlay_path_of sample_fs (basename ''/0A0B0C0D''))"
    using sample_creatable by (simp_all only: sample_paths)
  have 5: "fst (read sample_fs sample_os ''/0A0B0C0D'' 100 0) =
     Inr ''append nfsroot=/srv/nodes/0A0B0C0D ro''"
    using read_run[OF sample_match(1) c0, of 100 0] ip r by simp
  then have 4: "fst (read sample_fs ?os ''/0A0B0C0D'' 100 0) =
     Inr ''append nfsroot=/srv/nodes/0A0B0C0D ro''"
    by (simp add: read_sh)
  show ?thesis using 3 4 5 by (simp add: failing_sh_def)
qed


lemma read_non_hex:
  assumes "length node = 8" "list_all node_char node" "basename path = node"
    and "\<not> list_all upper_hex node"
    and "creatable os (node_path_of self node)" "creatable os (overlay_path_of self node)"
  shows "fst (read self os path len offset) = Inl ValueError"
proof -
  have m: "node_re_match (basename path)"
    using assms(1,2,3) by (simp add: node_re_match_def)
  have h: "hex2ip (basename path) = Inl ValueError"
    using non_hex_raises[OF assms(1,2,4)] assms(3) by simp
  show ?thesis
    using read_run[OF m, of os self len offset] assms(3,5,6) h by simp
qed

lemma existing_creatable:
  "creatable (sample_os\<lparr>fs := [(p, Directory), (q, Directory)]\<rparr>) p"
  "creatable (sample_os\<lparr>fs := [(p, Directory), (q, Directory)]\<rparr>) q"
  by (simp_all add: creatable_def path_exists_def)

text \<open>
  C10. For a path whose base name is eight characters of \<^verbatim>\<open>[A-Z0-9]\<close>: \<open>read\<close> returns on
  every object, host, length and offset exactly when the eight characters are hexadecimal
  digits; when one of them is not and both directories of the node exist or can be
  created, \<open>read\<close> raises \<^verbatim>\<open>ValueError\<close>.
\<close>

theorem read_total_only_on_hex:
  assumes "length node = 8" "list_all node_char node" "basename path = node"
  shows "((\<forall>self os len offset. \<exists>r. fst (read self os path len offset) = Inr r) =
            list_all upper_hex node) \<and>
         (\<not> list_all upper_hex node \<and> creatable os (node_path_of self node) \<and>
          creatable os (overlay_path_of self node) \<longrightarrow>
            fst (read self os path len offset) = Inl ValueError)"
proof (intro conjI impI iffI allI)
  fix self os len offset
  assume "list_all upper_hex node"
  moreover have "node_re_match (basename path)"
    using assms by (simp add: node_re_match_def)
  ultimately show "\<exists>r. fst (read self os path len offset) = Inr r"
    using read_total_hex[of path self os len offset] assms(1,3) by simp
next
  assume total: "\<forall>self os len offset. \<exists>r. fst (read self os path len offset) = Inr r"
  show "list_all upper_hex node"
  proof (rule ccontr)
    assume n: "\<not> list_all upper_hex node"
    let ?os = "sample_os\<lparr>fs := [(node_path_of sample_fs node, Directory),
                                 (overlay_path_of sample_fs node, Directory)]\<rparr>"
    have "fst (read sample_fs ?os path 0 0) = Inl ValueError"
      using read_non_hex[OF assms n existing_creatable] .
    then show False using total by (metis Inl_Inr_False)
  qed
next
  assume "\<not> list_all upper_hex node \<and> creatable os (node_path_of self node) \<and>
          creatable os (overlay_path_of self node)"
  then show "fst (read self os path len offset) = Inl ValueError"
    using read_non_hex[OF assms] by blast
qed

text \<open>
  The read of \<^verbatim>\<open>/GGGGGGGG\<close> on the sample host raises \<^verbatim>\<open>ValueError\<close>.
\<close>

theorem read_total_only_on_hex_witness:
  "length ''GGGGGGGG'' = 8 \<and> list_all node_char ''GGGGGGGG'' \<and>
   basename ''/GGGGGGGG'' = ''GGGGGGGG'' \<and>
   \<not> (\<forall>self os len offset. \<exists>r. fst (read self os ''/GGGGGGGG'' len offset) = Inr r) \<and>
   fst (read sample_fs sample_os ''/GGGGGGGG'' 100 0) = Inl ValueError"
proof -
  have a: "length ''GGGGGGGG'' = 8" "list_all node_char ''GGGGGGGG''"
          "basename ''/GGGGGGGG'' = ''GGGGGGGG''" "\<not> list_all upper_hex ''GGGGGGGG''"
    by code_simp+
  have c: "creatable sample_os (node_path_of sample_fs ''GGGGGGGG'')"
          "creatable sample_os (overlay_path_of sample_fs ''GGGGGGGG'')"
    using sample_creatable by (simp_all only: sample_paths)
  show ?thesis
    using read_total_only_on_hex[OF a(1,2,3), of sample_os sample_fs 100 0] a c by blast
qed

section \<open>Listing the active nodes\<close>



lemma basename_join:
  assumes "n \<noteq> []" "slash \<notin> set n"
  shows "basename (join d n) = n"
proof -
  have t: "\<And>pre. pre = [] \<or> last pre = slash \<Longrightarrow> basename (pre @ n) = n"
  proof -
    fix pre :: string
    assume p: "pre = [] \<or> last pre = slash"
    have "takeWhile (\<lambda>c. c \<noteq> slash) (rev n @ rev pre) =
          rev n @ takeWhile (\<lambda>c. c \<noteq> slash) (rev pre)"
      using assms(2) by (intro takeWhile_append2) auto
    moreover have "takeWhile (\<lambda>c. c \<noteq> slash) (rev pre) = []"
      using p by (cases pre rule: rev_cases) auto
    ultimately show "basename (pre @ n) = n" by (simp add: basename_def)
  qed
  have h: "hd n \<noteq> slash" using assms by (cases n) auto
  show ?thesis
  proof (cases "d = [] \<or> last d = slash")
    case True
    then show ?thesis using t[of d] h assms(1) by (simp add: join_def)
  next
    case False
    then show ?thesis using t[of "d @ [slash]"] h assms(1) by (simp add: join_def)
  qed
qed

lemma prefix_split: "prefix pre q \<Longrightarrow> q = pre @ drop (length pre) q"
  by (auto elim: prefixE)

lemma child_name_join:
  assumes "child_name d q = Some n"
  shows "q = join d n \<and> n \<noteq> [] \<and> slash \<notin> set n"
proof (cases "d = [] \<or> last d = slash")
  case True
  then have c: "child_name d q =
      (if prefix d q \<and> drop (length d) q \<noteq> [] \<and> slash \<notin> set (drop (length d) q)
       then Some (drop (length d) q) else None)"
    by (simp add: child_name_def Let_def)
  have n: "prefix d q" "n = drop (length d) q" "n \<noteq> []" "slash \<notin> set n"
    using assms unfolding c by (simp_all split: if_splits, auto)
  have "hd n \<noteq> slash" using n(3,4) by (cases n) auto
  then have "join d n = d @ n" using n(3) True by (simp add: join_def)
  then show ?thesis using prefix_split[OF n(1)] n by simp
next
  case False
  then have c: "child_name d q =
      (if prefix (d @ [slash]) q \<and> drop (Suc (length d)) q \<noteq> [] \<and>
          slash \<notin> set (drop (Suc (length d)) q)
       then Some (drop (Suc (length d)) q) else None)"
    by (simp add: child_name_def Let_def)
  have n: "prefix (d @ [slash]) q" "n = drop (Suc (length d)) q" "n \<noteq> []" "slash \<notin> set n"
    using assms unfolding c by (simp_all split: if_splits, auto)
  have "hd n \<noteq> slash" using n(3,4) by (cases n) auto
  then have "join d n = (d @ [slash]) @ n" using n(3) False by (simp add: join_def)
  then show ?thesis using prefix_split[OF n(1)] n by simp
qed

lemma entries_iff:
  "n \<in> set (entries os d) = (\<exists>qk \<in> set (fs os). child_name d (fst qk) = Some n)"
  by (force simp: entries_def map_filter_def)

lemma entries_names:
  assumes "n \<in> set (entries os d)"
  shows "n \<noteq> []" "slash \<notin> set n" "path_exists os (join d n)" "child_name d (join d n) = Some n"
proof -
  obtain qk where qk: "qk \<in> set (fs os)" "child_name d (fst qk) = Some n"
    using assms entries_iff by blast
  note j = child_name_join[OF qk(2)]
  show "n \<noteq> []" "slash \<notin> set n" using j by simp_all
  show "path_exists os (join d n)" using qk(1) j by (force simp: path_exists_def)
  show "child_name d (join d n) = Some n" using qk(2) j by simp
qed


lemma rmdir_orphan:
  assumes "isdir os p" "\<not> ismount os p" "removable os p"
  shows "rmdir p os = Inr (without os p)"
proof -
  have "path_exists os p" using assms(1) by (force simp: isdir_def path_exists_def)
  moreover have "p \<notin> set (mounts os)" using assms(1,2) by (simp add: ismount_def)
  ultimately show ?thesis
    using assms(1,3) by (simp add: rmdir_def removable_def without_def)
qed

lemma without_isdir: "isdir (without os p) q = (isdir os q \<and> q \<noteq> p)"
  by (auto simp: without_def isdir_def)

lemma without_ismount:
  "\<not> ismount os p \<Longrightarrow> ismount (without os p) q = ismount os q"
  by (auto simp: ismount_def without_isdir) (simp add: without_def)+

lemma without_orphan: "orphan (without os p) q = (orphan os q \<and> q \<noteq> p)"
  by (auto simp: orphan_def ismount_def without_isdir) (simp_all add: without_def)

lemma without_removable: "removable os q \<Longrightarrow> removable (without os p) q"
  by (auto simp: removable_def entries_def map_filter_def without_def filter_empty_conv)

lemma node_loop_run:
  assumes "\<forall>n \<in> set ns. orphan os (join d n) \<longrightarrow> removable os (join d n)"
  shows "node_loop d ns acc os =
     (Inr (acc @ map (\<lambda>n. basename (join d n)) (filter (\<lambda>n. ismount os (join d n)) ns)),
      os\<lparr>fs := filter (\<lambda>qk. \<not> (fst qk \<in> join d ` set ns \<and> orphan os (fst qk))) (fs os)\<rparr>)"
  using assms
proof (induction ns arbitrary: os acc)
  case Nil
  then show ?case by simp
next
  case (Cons n ns)
  let ?p = "join d n"
  have rest: "\<forall>m \<in> set ns. orphan os (join d m) \<longrightarrow> removable os (join d m)"
    using Cons.prems by simp
  show ?case
  proof (cases "ismount os ?p")
    case True
    then have no: "\<not> orphan os ?p" by (simp add: orphan_def)
    have f: "filter (\<lambda>qk. \<not> (fst qk \<in> join d ` set (n # ns) \<and> orphan os (fst qk))) (fs os) =
             filter (\<lambda>qk. \<not> (fst qk \<in> join d ` set ns \<and> orphan os (fst qk))) (fs os)"
      using no by (intro filter_cong) auto
    show ?thesis
      using True Cons.IH[OF rest, of "acc @ [basename ?p]"] unfolding f
      by (simp add: Let_def)
  next
    case nm: False
    show ?thesis
    proof (cases "isdir os ?p")
      case False
      then have no: "\<not> orphan os ?p" by (simp add: orphan_def)
      have f: "filter (\<lambda>qk. \<not> (fst qk \<in> join d ` set (n # ns) \<and> orphan os (fst qk))) (fs os) =
               filter (\<lambda>qk. \<not> (fst qk \<in> join d ` set ns \<and> orphan os (fst qk))) (fs os)"
        using no by (intro filter_cong) auto
      show ?thesis
        using nm False Cons.IH[OF rest, of acc] unfolding f
        by (simp add: Let_def)
    next
      case True
      then have o: "orphan os ?p" using nm by (simp add: orphan_def)
      then have rm: "removable os ?p" using Cons.prems by simp
      have r: "rmdir ?p os = Inr (without os ?p)" using rmdir_orphan[OF True nm rm] .
      have rest': "\<forall>m \<in> set ns. orphan (without os ?p) (join d m) \<longrightarrow>
                     removable (without os ?p) (join d m)"
        using rest without_removable by (simp add: without_orphan)
      have m: "filter (\<lambda>m. ismount (without os ?p) (join d m)) ns =
               filter (\<lambda>m. ismount os (join d m)) ns"
        using without_ismount[OF nm] by simp
      have f: "filter (\<lambda>qk. \<not> (fst qk \<in> join d ` set ns \<and> orphan (without os ?p) (fst qk)))
                 (fs (without os ?p)) =
               filter (\<lambda>qk. \<not> (fst qk \<in> join d ` set (n # ns) \<and> orphan os (fst qk))) (fs os)"
        unfolding without_orphan using o
        by (auto simp: without_def intro!: filter_cong)
      have s: "without os ?p\<lparr>fs := filter (\<lambda>qk. \<not> (fst qk \<in> join d ` set (n # ns) \<and>
                   orphan os (fst qk))) (fs os)\<rparr> =
               os\<lparr>fs := filter (\<lambda>qk. \<not> (fst qk \<in> join d ` set (n # ns) \<and>
                   orphan os (fst qk))) (fs os)\<rparr>"
        by (simp add: without_def)
      show ?thesis
        using nm True r Cons.IH[OF rest', of acc] unfolding m f s
        by (simp add: Let_def)
    qed
  qed
qed


lemma child_iff:
  assumes "qk \<in> set (fs os)"
  shows "(fst qk \<in> join d ` set (entries os d)) = (child_name d (fst qk) \<noteq> None)"
proof
  assume "fst qk \<in> join d ` set (entries os d)"
  then obtain n where "n \<in> set (entries os d)" "fst qk = join d n" by auto
  then show "child_name d (fst qk) \<noteq> None" using entries_names(4)[of n os d] by simp
next
  assume "child_name d (fst qk) \<noteq> None"
  then obtain n where n: "child_name d (fst qk) = Some n" by auto
  then have "n \<in> set (entries os d)" using assms entries_iff by blast
  then show "fst qk \<in> join d ` set (entries os d)" using child_name_join[OF n] by simp
qed

lemma get_node_list_run:
  assumes "isdir os (conf_node_dir self)"
    and "\<forall>n \<in> set (entries os (conf_node_dir self)).
           orphan os (node_path_of self n) \<longrightarrow> removable os (node_path_of self n)"
  shows "get_node_list self os =
     (Inr (filter (\<lambda>n. ismount os (node_path_of self n)) (entries os (conf_node_dir self))),
      os\<lparr>fs := filter (\<lambda>qk. \<not> (child_name (conf_node_dir self) (fst qk) \<noteq> None \<and>
                                 orphan os (fst qk))) (fs os)\<rparr>)"
proof -
  let ?d = "conf_node_dir self"
  have l: "listdir os ?d = Inr (entries os ?d)" using assms(1) by (simp add: listdir_def)
  have m: "map (\<lambda>n. basename (join ?d n)) (filter (\<lambda>n. ismount os (join ?d n)) (entries os ?d)) =
           filter (\<lambda>n. ismount os (join ?d n)) (entries os ?d)"
    using entries_names(1,2)[of _ os ?d] by (intro map_idI) (simp add: basename_join)
  have f: "filter (\<lambda>qk. \<not> (fst qk \<in> join ?d ` set (entries os ?d) \<and> orphan os (fst qk))) (fs os) =
           filter (\<lambda>qk. \<not> (child_name ?d (fst qk) \<noteq> None \<and> orphan os (fst qk))) (fs os)"
    using child_iff[of _ os ?d] by (intro filter_cong) auto
  show ?thesis
    unfolding get_node_list_def l sum.case node_loop_run[OF assms(2), of "[]"] m f by simp
qed

text \<open>
  C4, as the code has it. When the node directory is a directory and every entry of it
  that is a directory and not a mount point can be removed by \<^verbatim>\<open>os.rmdir\<close> (it is empty and
  removal from its parent is permitted), \<open>get_node_list\<close> returns exactly the entries that
  are mount points, in listing order, and leaves a host from which exactly those orphaned
  entries are gone: every listed name is still a mount point and an entry, no orphan is
  listed, and every orphan is absent from the host and from a new listing.
\<close>

theorem get_node_list_cleans:
  assumes "isdir os (conf_node_dir self)"
    and "\<forall>n \<in> set (entries os (conf_node_dir self)).
           orphan os (node_path_of self n) \<longrightarrow> removable os (node_path_of self n)"
  shows "\<exists>names os'. get_node_list self os = (Inr names, os') \<and>
     names = filter (\<lambda>n. ismount os (node_path_of self n)) (entries os (conf_node_dir self)) \<and>
     fs os' = filter (\<lambda>qk. \<not> (child_name (conf_node_dir self) (fst qk) \<noteq> None \<and>
                                orphan os (fst qk))) (fs os) \<and>
     mounts os' = mounts os \<and>
     (\<forall>n \<in> set names. ismount os' (node_path_of self n)) \<and>
     (\<forall>n \<in> set (entries os (conf_node_dir self)).
        (ismount os (node_path_of self n) \<longrightarrow>
           n \<in> set names \<and> ismount os' (node_path_of self n) \<and>
           n \<in> set (entries os' (conf_node_dir self))) \<and>
        (orphan os (node_path_of self n) \<longrightarrow>
           n \<notin> set names \<and> \<not> path_exists os' (node_path_of self n) \<and>
           n \<notin> set (entries os' (conf_node_dir self))))"
proof -
  let ?d = "conf_node_dir self"
  let ?names = "filter (\<lambda>n. ismount os (join ?d n)) (entries os ?d)"
  let ?keep = "\<lambda>qk. \<not> (child_name ?d (fst qk) \<noteq> None \<and> orphan os (fst qk))"
  let ?os' = "os\<lparr>fs := filter ?keep (fs os)\<rparr>"
  have run: "get_node_list self os = (Inr ?names, ?os')"
    using get_node_list_run[OF assms] .
  have mounted: "ismount ?os' (join ?d n) \<and> n \<in> set (entries ?os' ?d)"
    if n: "n \<in> set (entries os ?d)" and m: "ismount os (join ?d n)" for n
  proof -
    have no: "\<not> orphan os (join ?d n)" using m by (simp add: orphan_def)
    have "(join ?d n, Directory) \<in> set (fs os)" using m by (simp add: ismount_def isdir_def)
    then have "(join ?d n, Directory) \<in> set (fs ?os')" using no by simp
    then have 1: "ismount ?os' (join ?d n)" using m by (simp add: ismount_def isdir_def)
    obtain qk where qk: "qk \<in> set (fs os)" "child_name ?d (fst qk) = Some n"
      using n entries_iff by blast
    then have "fst qk = join ?d n" using child_name_join by blast
    then have "qk \<in> set (fs ?os')" using qk(1) no by simp
    then have "n \<in> set (entries ?os' ?d)" using qk(2) entries_iff by blast
    then show ?thesis using 1 by simp
  qed
  have orphaned: "n \<notin> set ?names \<and> \<not> path_exists ?os' (join ?d n) \<and> n \<notin> set (entries ?os' ?d)"
    if n: "n \<in> set (entries os ?d)" and o: "orphan os (join ?d n)" for n
  proof -
    have 1: "n \<notin> set ?names" using o by (simp add: orphan_def)
    have c: "child_name ?d (join ?d n) = Some n" using entries_names(4)[OF n] .
    have 2: "\<not> path_exists ?os' (join ?d n)"
      using c o by (auto simp: path_exists_def)
    have 3: "n \<notin> set (entries ?os' ?d)"
    proof
      assume "n \<in> set (entries ?os' ?d)"
      then show False using entries_names(3)[of n ?os' ?d] 2 by simp
    qed
    show ?thesis using 1 2 3 by simp
  qed
  have listed: "\<forall>n \<in> set ?names. ismount ?os' (join ?d n)"
    using mounted by simp
  have both: "\<forall>n \<in> set (entries os ?d).
        (ismount os (join ?d n) \<longrightarrow>
           n \<in> set ?names \<and> ismount ?os' (join ?d n) \<and> n \<in> set (entries ?os' ?d)) \<and>
        (orphan os (join ?d n) \<longrightarrow>
           n \<notin> set ?names \<and> \<not> path_exists ?os' (join ?d n) \<and> n \<notin> set (entries ?os' ?d))"
    using mounted orphaned by simp
  have "fs ?os' = filter ?keep (fs os)" "mounts ?os' = mounts os" by simp_all
  then show ?thesis using run listed both by blast
qed


lemma node_host_entries:
  "entries node_host ''/srv/nodes'' = [''AABBCCDD'', ''C0A80101'', ''README'']"
  by code_simp

text \<open>
  A node directory with the empty leftover \<^verbatim>\<open>AABBCCDD\<close>, the mounted node \<^verbatim>\<open>C0A80101\<close> and a
  plain file: the listing is the mounted node, and only the leftover directory is removed.
\<close>

theorem get_node_list_cleans_witness:
  "isdir node_host ''/srv/nodes'' \<and>
   entries node_host ''/srv/nodes'' = [''AABBCCDD'', ''C0A80101'', ''README''] \<and>
   orphan node_host ''/srv/nodes/AABBCCDD'' \<and> ismount node_host ''/srv/nodes/C0A80101'' \<and>
   fst (get_node_list sample_fs node_host) = Inr [''C0A80101''] \<and>
   fs (snd (get_node_list sample_fs node_host)) =
     [(''/srv'', Directory), (''/srv/nodes'', Directory), (''/srv/root'', Directory),
      (''/srv/overlay'', Directory), (''/srv/nodes/C0A80101'', Directory),
      (''/srv/nodes/C0A80101/etc'', Directory), (''/srv/nodes/README'', RegularFile)] \<and>
   \<not> path_exists (snd (get_node_list sample_fs node_host)) ''/srv/nodes/AABBCCDD''"
proof -
  have d: "conf_node_dir sample_fs = ''/srv/nodes''" by (simp add: sample_fs_def)
  have i: "isdir node_host ''/srv/nodes''" by code_simp
  have j: "join ''/srv/nodes'' ''AABBCCDD'' = ''/srv/nodes/AABBCCDD''"
          "join ''/srv/nodes'' ''C0A80101'' = ''/srv/nodes/C0A80101''"
          "join ''/srv/nodes'' ''README'' = ''/srv/nodes/README''"
    by code_simp+
  have o: "orphan node_host ''/srv/nodes/AABBCCDD''" "removable node_host ''/srv/nodes/AABBCCDD''"
          "ismount node_host ''/srv/nodes/C0A80101''" "\<not> orphan node_host ''/srv/nodes/C0A80101''"
          "\<not> ismount node_host ''/srv/nodes/AABBCCDD''"
          "\<not> orphan node_host ''/srv/nodes/README''" "\<not> ismount node_host ''/srv/nodes/README''"
    by code_simp+
  have a: "\<forall>n \<in> set (entries node_host (conf_node_dir sample_fs)).
             orphan node_host (node_path_of sample_fs n) \<longrightarrow>
             removable node_host (node_path_of sample_fs n)"
    unfolding d node_host_entries using o by (simp add: j)
  obtain names os' where r:
    "get_node_list sample_fs node_host = (Inr names, os')"
    "names = filter (\<lambda>n. ismount node_host (node_path_of sample_fs n))
               (entries node_host (conf_node_dir sample_fs))"
    "fs os' = filter (\<lambda>qk. \<not> (child_name (conf_node_dir sample_fs) (fst qk) \<noteq> None \<and>
                                orphan node_host (fst qk))) (fs node_host)"
    using get_node_list_cleans[of node_host sample_fs] i a unfolding d by blast
  have 1: "names = [''C0A80101'']"
    unfolding r(2) d node_host_entries using o by (simp add: j)
  have k: "filter (\<lambda>qk. \<not> (child_name ''/srv/nodes'' (fst qk) \<noteq> None \<and>
                                orphan node_host (fst qk))) (fs node_host) =
     [(''/srv'', Directory), (''/srv/nodes'', Directory), (''/srv/root'', Directory),
      (''/srv/overlay'', Directory), (''/srv/nodes/C0A80101'', Directory),
      (''/srv/nodes/C0A80101/etc'', Directory), (''/srv/nodes/README'', RegularFile)]"
    by code_simp
  have 2: "fs os' =
     [(''/srv'', Directory), (''/srv/nodes'', Directory), (''/srv/root'', Directory),
      (''/srv/overlay'', Directory), (''/srv/nodes/C0A80101'', Directory),
      (''/srv/nodes/C0A80101/etc'', Directory), (''/srv/nodes/README'', RegularFile)]"
    using r(3) unfolding d k .
  have 3: "\<not> path_exists os' ''/srv/nodes/AABBCCDD''"
    unfolding path_exists_def 2 by simp
  show ?thesis
    using i node_host_entries o(1,3) r(1) 1 2 3 by simp
qed

text \<open>
  C4 as stated holds for every state of the node directory. With a leftover directory that
  is not empty, \<^verbatim>\<open>os.rmdir\<close> raises \<^verbatim>\<open>OSError\<close>: no listing is returned and the directory
  stays.
\<close>

theorem get_node_list_counterexample:
  "isdir orphan_host ''/srv/nodes/AABBCCDD'' \<and> \<not> ismount orphan_host ''/srv/nodes/AABBCCDD'' \<and>
   fst (get_node_list sample_fs orphan_host) =
     Inl (OSError (os_err 39 ''Directory not empty'' ''/srv/nodes/AABBCCDD'')) \<and>
   path_exists (snd (get_node_list sample_fs orphan_host)) ''/srv/nodes/AABBCCDD''"
  by code_simp

end
